theory Spec2Isabelle
  imports Complex_Main "HOL-Library.Multiset" "HOL-Library.Sublist" "HOL-Library.Product_Lexorder"
begin

section \<open>JavaScript strings and values\<close>

text \<open>
  Strings are lists of code units. The case conversions and \<open>trim\<close> are modelled on
  ASCII text: \<open>toLowerCase\<close> and \<open>toUpperCase\<close> map the 26 Latin letters and leave
  every other code unit alone, \<open>trim\<close> strips tab, line feed, vertical tab, form feed,
  carriage return and space from both ends.
\<close>

definition NL :: char where
  "NL = CHR 0x0A"

definition isWhiteSpace :: "char \<Rightarrow> bool" where
  "isWhiteSpace c = (c \<in> set [CHR 0x09, CHR 0x0A, CHR 0x0B, CHR 0x0C, CHR 0x0D, CHR 0x20])"

definition trim :: "string \<Rightarrow> string" where
  "trim s = rev (dropWhile isWhiteSpace (rev (dropWhile isWhiteSpace s)))"

definition toLowerCase_char :: "char \<Rightarrow> char" where
  "toLowerCase_char c =
     (case map_of (zip ''ABCDEFGHIJKLMNOPQRSTUVWXYZ'' ''abcdefghijklmnopqrstuvwxyz'') c of
        Some d \<Rightarrow> d
      | None \<Rightarrow> c)"

definition toUpperCase_char :: "char \<Rightarrow> char" where
  "toUpperCase_char c =
     (case map_of (zip ''abcdefghijklmnopqrstuvwxyz'' ''ABCDEFGHIJKLMNOPQRSTUVWXYZ'') c of
        Some d \<Rightarrow> d
      | None \<Rightarrow> c)"

definition toLowerCase :: "string \<Rightarrow> string" where
  "toLowerCase s = map toLowerCase_char s"

definition toUpperCase :: "string \<Rightarrow> string" where
  "toUpperCase s = map toUpperCase_char s"

text \<open>\<open>s.split('\n')\<close>: the pieces between line feeds; the empty string gives one empty piece.\<close>

fun split_nl :: "string \<Rightarrow> string list" where
  "split_nl [] = [[]]"
| "split_nl (c # cs) =
     (if c = NL then [] # split_nl cs
      else (case split_nl cs of
              [] \<Rightarrow> [[c]]
            | l # ls \<Rightarrow> (c # l) # ls))"

text \<open>\<open>xs.join(sep)\<close>.\<close>

fun join :: "string \<Rightarrow> string list \<Rightarrow> string" where
  "join sep [] = []"
| "join sep [x] = x"
| "join sep (x # y # ys) = x @ sep @ join sep (y # ys)"

text \<open>
  \<open>Array.prototype.sort(cmp)\<close>: a stable sort by a comparator that returns a number,
  written as a stable insertion sort (an element goes before the first one it does not
  exceed).
\<close>

fun insort_cmp :: "('a \<Rightarrow> 'a \<Rightarrow> int) \<Rightarrow> 'a \<Rightarrow> 'a list \<Rightarrow> 'a list" where
  "insort_cmp cmp x [] = [x]"
| "insort_cmp cmp x (y # ys) =
     (if cmp x y \<le> 0 then x # y # ys else y # insort_cmp cmp x ys)"

definition js_sort :: "('a \<Rightarrow> 'a \<Rightarrow> int) \<Rightarrow> 'a list \<Rightarrow> 'a list" where
  "js_sort cmp xs = foldr (insort_cmp cmp) xs []"

text \<open>Every exception the modelled code raises is a value of this type.\<close>

datatype error =
    EmptyLanguageInput
  | UnknownLanguage string
  | InvalidJSON
  | MissingProperty string
  | MissingToolingsLanguage
  | InvalidToolingsLanguage
  | TypeError
  | LLMError

section \<open>ProgrammingLanguage\<close>

text \<open>
  The string enum \<open>ProgrammingLanguage\<close> is its values at run time;
  \<open>Object.values(ProgrammingLanguage)\<close> lists them in declaration order.
\<close>

abbreviation GENERIC :: string where
  "GENERIC \<equiv> ''GENERIC''"

abbreviation AVRO :: string where
  "AVRO \<equiv> ''AVRO''"

definition ProgrammingLanguage_values :: "string list" where
  "ProgrammingLanguage_values =
     [''JAVASCRIPT'', ''JAVASCRIPT_JSX'', ''TYPESCRIPT'', ''TYPESCRIPT_TSX'', ''PYTHON'',
      ''PHP'', ''JAVA'', ''SCSS'', ''HTML'', ''CSHARP'', GENERIC, ''GO'', ''C'', ''CPP'',
      ''SQL'', ''KOTLIN'', ''VUE'', ''CSS'', ''YAML'', ''JSON'', ''XML'', ''BASH'',
      ''MARKDOWN'', ''RUBY'', ''RUST'', ''SAP_ABAP'', ''SAP_CDS'', ''SAP_HANA_SQL'',
      ''SWIFT'', ''PROPERTIES'', AVRO]"

record ProgrammingLanguageInfo =
  displayName :: string
  fileExtensions :: "string list"

text \<open>\<open>Object.entries(ProgrammingLanguageDetails)\<close>, in the order the object is written.\<close>

definition ProgrammingLanguageDetails :: "(string \<times> ProgrammingLanguageInfo) list" where
  "ProgrammingLanguageDetails =
     [(GENERIC, \<lparr>displayName = ''Generic'', fileExtensions = []\<rparr>),
      (''JAVASCRIPT'', \<lparr>displayName = ''JavaScript'', fileExtensions = [''js'']\<rparr>),
      (''JAVASCRIPT_JSX'', \<lparr>displayName = ''JavaScript (JSX)'', fileExtensions = [''jsx'']\<rparr>),
      (''TYPESCRIPT'', \<lparr>displayName = ''TypeScript'', fileExtensions = [''ts'']\<rparr>),
      (''TYPESCRIPT_TSX'', \<lparr>displayName = ''TypeScript (TSX)'', fileExtensions = [''tsx'']\<rparr>),
      (''PYTHON'', \<lparr>displayName = ''Python'', fileExtensions = [''py'', ''pyx'', ''pyw'']\<rparr>),
      (''PHP'', \<lparr>displayName = ''PHP'', fileExtensions = [''php'', ''phtml'']\<rparr>),
      (''JAVA'', \<lparr>displayName = ''Java'', fileExtensions = [''java'']\<rparr>),
      (''SCSS'', \<lparr>displayName = ''SCSS'', fileExtensions = [''scss'']\<rparr>),
      (''HTML'', \<lparr>displayName = ''HTML'', fileExtensions = [''html'', ''htm'']\<rparr>),
      (''CSHARP'', \<lparr>displayName = ''C#'', fileExtensions = [''cs'']\<rparr>),
      (''GO'', \<lparr>displayName = ''Go'', fileExtensions = [''go'']\<rparr>),
      (''C'', \<lparr>displayName = ''C'', fileExtensions = [''c'', ''h'']\<rparr>),
      (''CPP'', \<lparr>displayName = ''C++'',
         fileExtensions = [''cpp'', ''cc'', ''cxx'', ''c++'', ''hpp'', ''hxx'']\<rparr>),
      (''SQL'', \<lparr>displayName = ''SQL'', fileExtensions = [''sql'']\<rparr>),
      (''KOTLIN'', \<lparr>displayName = ''Kotlin'', fileExtensions = [''kt'', ''kts'']\<rparr>),
      (''VUE'', \<lparr>displayName = ''Vue'', fileExtensions = [''vue'']\<rparr>),
      (''CSS'', \<lparr>displayName = ''CSS'', fileExtensions = [''css'']\<rparr>),
      (''YAML'', \<lparr>displayName = ''YAML'', fileExtensions = [''yaml'', ''yml'']\<rparr>),
      (''JSON'', \<lparr>displayName = ''JSON'', fileExtensions = [''json'']\<rparr>),
      (''XML'', \<lparr>displayName = ''XML'', fileExtensions = [''xml'']\<rparr>),
      (''BASH'', \<lparr>displayName = ''Bash'', fileExtensions = [''sh'', ''bash'']\<rparr>),
      (''MARKDOWN'', \<lparr>displayName = ''Markdown'', fileExtensions = [''md'']\<rparr>),
      (''RUST'', \<lparr>displayName = ''Rust'', fileExtensions = [''rs'']\<rparr>),
      (''RUBY'', \<lparr>displayName = ''Ruby'', fileExtensions = [''rb'']\<rparr>),
      (''SAP_ABAP'', \<lparr>displayName = ''SAP ABAP'', fileExtensions = [''abap'', ''ab4'']\<rparr>),
      (''SAP_CDS'', \<lparr>displayName = ''SAP CDS'', fileExtensions = [''cds'']\<rparr>),
      (''SAP_HANA_SQL'', \<lparr>displayName = ''SAP HANA SQL'',
         fileExtensions = [''hdbprocedure'', ''hdbfunction'', ''hdbview'',
                           ''hdbcalculationview'']\<rparr>),
      (''SWIFT'', \<lparr>displayName = ''Swift'', fileExtensions = [''swift'']\<rparr>),
      (''PROPERTIES'', \<lparr>displayName = ''Properties'', fileExtensions = [''properties'']\<rparr>),
      (AVRO, \<lparr>displayName = ''Avro'', fileExtensions = [''avdl'', ''avsc'', ''avpr'']\<rparr>)]"

definition LANGUAGE_ALIASES :: "(string \<times> string) list" where
  "LANGUAGE_ALIASES = [(''TYPESCRIPT_JSX'', ''TYPESCRIPT_TSX'')]"

text \<open>
  \<open>stringToProgrammingLanguage\<close>: the alias table on the upper-cased input, then the enum
  values, the display names and the file extensions on the lower-cased input; the two
  \<open>throw\<close>s are the two \<open>Inl\<close> results.
\<close>

definition stringToProgrammingLanguage :: "string \<Rightarrow> error + string" where
  "stringToProgrammingLanguage input =
     (let trimmedInput = trim input in
      if trimmedInput = [] then Inl EmptyLanguageInput
      else
        let upperInput = toUpperCase trimmedInput in
        (case map_of LANGUAGE_ALIASES upperInput of
           Some aliased \<Rightarrow> Inr aliased
         | None \<Rightarrow>
             let lowerInput = toLowerCase trimmedInput in
             (case find (\<lambda>enumValue. toLowerCase enumValue = lowerInput)
                     ProgrammingLanguage_values of
                Some enumValue \<Rightarrow> Inr enumValue
              | None \<Rightarrow>
                  (case find (\<lambda>(language, info). toLowerCase (displayName info) = lowerInput)
                          ProgrammingLanguageDetails of
                     Some (language, info) \<Rightarrow> Inr language
                   | None \<Rightarrow>
                       (case find (\<lambda>(language, info).
                                      list_ex (\<lambda>ext. toLowerCase ext = lowerInput)
                                        (fileExtensions info))
                               ProgrammingLanguageDetails of
                          Some (language, info) \<Rightarrow> Inr language
                        | None \<Rightarrow> Inl (UnknownLanguage trimmedInput))))))"

text \<open>
  \<open>convertProgrammingLanguage\<close>: file extensions only, and \<open>GENERIC\<close> where
  \<open>stringToProgrammingLanguage\<close> throws.
\<close>

definition convertProgrammingLanguage :: "string \<Rightarrow> string" where
  "convertProgrammingLanguage extension =
     (if extension = [] \<or> trim extension = [] then GENERIC
      else
        let lowerExtension = toLowerCase (trim extension) in
        (case find (\<lambda>(language, info).
                       list_ex (\<lambda>ext. toLowerCase ext = lowerExtension) (fileExtensions info))
                ProgrammingLanguageDetails of
           Some (language, info) \<Rightarrow> language
         | None \<Rightarrow> GENERIC))"

text \<open>
  What the three searches of \<open>stringToProgrammingLanguage\<close> and its alias table accept,
  said without the search order: the upper-cased text is an alias, or the lower-cased
  text is the lower-cased form of an enum value, a display name or a file extension.
\<close>

definition languageNames :: "string list" where
  "languageNames =
     ProgrammingLanguage_values
     @ map (\<lambda>(language, info). displayName info) ProgrammingLanguageDetails
     @ concat (map (\<lambda>(language, info). fileExtensions info) ProgrammingLanguageDetails)"

definition recognisedLanguage :: "string \<Rightarrow> bool" where
  "recognisedLanguage t =
     (toUpperCase t \<in> set (map fst LANGUAGE_ALIASES)
      \<or> toLowerCase t \<in> set (map toLowerCase languageNames))"

section \<open>Comment styles and comment injection\<close>

record CommentStyle =
  cs_prefix :: string
  cs_suffix :: "string option"

text \<open>\<open>getCommentStyleForLanguage\<close>; \<open>None\<close> is the source's \<open>null\<close>.\<close>

definition slashSlashLanguages :: "string list" where
  "slashSlashLanguages =
     [''JAVASCRIPT'', ''JAVASCRIPT_JSX'', ''TYPESCRIPT'', ''TYPESCRIPT_TSX'', ''PHP'', ''JAVA'',
      ''CSHARP'', ''GO'', ''C'', ''CPP'', ''KOTLIN'', ''SCSS'', ''CSS'', ''RUST'', ''SWIFT'',
      ''SAP_CDS'', ''VUE'', GENERIC]"

definition hashLanguages :: "string list" where
  "hashLanguages = [''PYTHON'', ''YAML'', ''BASH'', ''RUBY'', ''PROPERTIES'']"

definition doubleDashLanguages :: "string list" where
  "doubleDashLanguages = [''SQL'', ''SAP_HANA_SQL'']"

definition htmlStyleLanguages :: "string list" where
  "htmlStyleLanguages = [''HTML'', ''XML'', ''MARKDOWN'']"

definition asteriskLanguages :: "string list" where
  "asteriskLanguages = [''SAP_ABAP'']"

definition noCommentLanguages :: "string list" where
  "noCommentLanguages = [''JSON'']"

definition getCommentStyleForLanguage :: "string \<Rightarrow> CommentStyle option" where
  "getCommentStyleForLanguage language =
     (if language \<in> set slashSlashLanguages
        then Some \<lparr>cs_prefix = ''//'', cs_suffix = None\<rparr>
      else if language \<in> set hashLanguages
        then Some \<lparr>cs_prefix = ''#'', cs_suffix = None\<rparr>
      else if language \<in> set doubleDashLanguages
        then Some \<lparr>cs_prefix = ''--'', cs_suffix = None\<rparr>
      else if language \<in> set htmlStyleLanguages
        then Some \<lparr>cs_prefix = ''<!--'', cs_suffix = Some ''-->''\<rparr>
      else if language \<in> set asteriskLanguages
        then Some \<lparr>cs_prefix = ''*'', cs_suffix = None\<rparr>
      else if language \<in> set noCommentLanguages
        then None
      else Some \<lparr>cs_prefix = ''//'', cs_suffix = None\<rparr>)"

text \<open>
  \<open>addDescriptionAsCommentForLanguage\<close>. A suffix that is the empty string is falsy in
  the source, so it takes the single-line branch.
\<close>

definition addDescriptionAsCommentForLanguage :: "string \<Rightarrow> string \<Rightarrow> string \<Rightarrow> string" where
  "addDescriptionAsCommentForLanguage code description programmingLanguage =
     (if description = [] \<or> trim description = [] then code
      else
        (case getCommentStyleForLanguage programmingLanguage of
           None \<Rightarrow> code
         | Some commentStyle \<Rightarrow>
             let lines = split_nl description in
             (case cs_suffix commentStyle of
                Some sfx \<Rightarrow>
                  if sfx \<noteq> [] then
                    join [NL] (map (\<lambda>line. cs_prefix commentStyle @ '' '' @ line @ '' '' @ sfx)
                                 lines)
                    @ [NL] @ code
                  else
                    join [NL] (map (\<lambda>line. cs_prefix commentStyle @ '' '' @ line) lines)
                    @ [NL] @ code
              | None \<Rightarrow>
                  join [NL] (map (\<lambda>line. cs_prefix commentStyle @ '' '' @ line) lines)
                  @ [NL] @ code)))"

section \<open>Practices and their conversion to rules\<close>

record FileContent =
  fc_line :: int
  fc_content :: string

record FileWorkshop =
  fw_contents :: "FileContent list option"
  fw_lang :: "string option"

record Example =
  ex_beginLine :: int
  ex_endLine :: int
  ex_fileWorkshop :: "FileWorkshop option"
  ex_isPositive :: bool

record DetectionUnitTest =
  ut_description :: "string option"
  ut_code :: string
  ut_isCompliant :: bool

record Toolings =
  tl_status :: string
  tl_program :: string
  tl_programDescription :: string
  tl_language :: string

record ParsedPractice =
  pp_name :: string
  pp_description :: string
  pp_suggestionsDisabled :: "bool option"
  pp_detectionUnitTests :: "DetectionUnitTest list option"
  pp_examples :: "Example list"
  pp_toolings :: "Toolings option"

record ValidatedExample =
  ve_code :: string
  ve_language :: string

record DetectionProgram =
  dp_code :: string
  dp_description :: string
  dp_language :: string

record ValidatedRule =
  vr_name :: string
  vr_positiveExamples :: "ValidatedExample list"
  vr_negativeExamples :: "ValidatedExample list"
  vr_detectionProgram :: "DetectionProgram option"

text \<open>
  The records keep the fields the conversion reads. A field the source reads through
  \<open>?.\<close> or tests for presence is an \<open>option\<close>; \<open>ex_beginLine\<close> and \<open>ex_endLine\<close> are
  \<open>position.begin.line\<close> and \<open>position.end.line\<close>.
\<close>

definition shouldIncludeDetection :: "ParsedPractice \<Rightarrow> bool" where
  "shouldIncludeDetection practice =
     (if pp_suggestionsDisabled practice = Some True then False
      else
        (case pp_toolings practice of
           None \<Rightarrow> False
         | Some toolings \<Rightarrow> tl_status toolings = ''SUCCESS''))"

definition getLineRange :: "FileContent list \<Rightarrow> int \<Rightarrow> int \<Rightarrow> string" where
  "getLineRange contents startLine endLine =
     join [NL]
       (map fc_content
          (js_sort (\<lambda>a b. fc_line a - fc_line b)
             (filter (\<lambda>c. fc_line c \<ge> startLine \<and> fc_line c \<le> endLine) contents)))"

text \<open>
  \<open>extractCodeWithContext\<close>, with \<open>this.config.contextLines\<close> as a parameter. Reading
  \<open>contents\<close> of a missing \<open>fileWorkshop\<close>, or mapping over missing \<open>contents\<close>, is a
  TypeError. On an empty \<open>contents\<close> array \<open>Math.min()\<close> is \<open>Infinity\<close> and
  \<open>Math.max()\<close> is \<open>-Infinity\<close>; the filter of the empty array is empty whatever the
  bounds are, so the result is the empty string.
\<close>

definition extractCodeWithContext :: "int \<Rightarrow> Example \<Rightarrow> error + string" where
  "extractCodeWithContext contextLines example =
     (case ex_fileWorkshop example of
        None \<Rightarrow> Inl TypeError
      | Some fileWorkshop \<Rightarrow>
          (case fw_contents fileWorkshop of
             None \<Rightarrow> Inl TypeError
           | Some contents \<Rightarrow>
               if contents = [] then Inr []
               else
                 let beginLine = ex_beginLine example;
                     endLine = ex_endLine example;
                     minLine = Min (set (map fc_line contents));
                     maxLine = Max (set (map fc_line contents));
                     startLine = max minLine (beginLine - contextLines);
                     stopLine = min maxLine (endLine + contextLines)
                 in Inr (getLineRange contents startLine stopLine)))"

text \<open>
  The language tags of a practice's examples, with missing and empty ones dropped
  (\<open>.map((ex) => ex.fileWorkshop?.lang).filter(Boolean)\<close>).
\<close>

definition exampleLang :: "Example \<Rightarrow> string option" where
  "exampleLang ex =
     (case ex_fileWorkshop ex of
        None \<Rightarrow> None
      | Some fileWorkshop \<Rightarrow> fw_lang fileWorkshop)"

definition exampleLanguages :: "ParsedPractice \<Rightarrow> string list" where
  "exampleLanguages practice =
     filter (\<lambda>lang. lang \<noteq> []) (List.map_filter exampleLang (pp_examples practice))"

text \<open>\<open>langCount.set(lang, (langCount.get(lang) ?? 0) + 1)\<close> on an insertion-ordered Map.\<close>

fun countLang :: "string \<Rightarrow> (string \<times> nat) list \<Rightarrow> (string \<times> nat) list" where
  "countLang lang [] = [(lang, 1)]"
| "countLang lang ((k, n) # rest) =
     (if k = lang then (k, n + 1) # rest else (k, n) # countLang lang rest)"

definition inferLanguage :: "ParsedPractice \<Rightarrow> string" where
  "inferLanguage practice =
     (let languages = exampleLanguages practice in
      if languages = [] then ''unknown''
      else
        (case js_sort (\<lambda>a b. int (snd b) - int (snd a))
                (foldl (\<lambda>langCount lang. countLang lang langCount) [] languages) of
           [] \<Rightarrow> ''unknown''
         | entry # rest \<Rightarrow> fst entry))"

definition avroExtensions :: "string list" where
  "avroExtensions = [''avdl'', ''avsc'', ''avpr'']"

definition areAllExamplesAvro :: "ParsedPractice \<Rightarrow> bool" where
  "areAllExamplesAvro practice =
     (let languages =
            filter (\<lambda>lang. lang \<noteq> [])
              (List.map_filter (\<lambda>ex. map_option toLowerCase (exampleLang ex))
                 (pp_examples practice))
      in if languages = [] then False
         else list_all (\<lambda>lang. lang \<in> set avroExtensions) languages)"

definition convertUnitTestToExample :: "DetectionUnitTest \<Rightarrow> string \<Rightarrow> ValidatedExample" where
  "convertUnitTestToExample test language =
     (let programmingLanguage = convertProgrammingLanguage language in
      (case map_option trim (ut_description test) of
         None \<Rightarrow> \<lparr>ve_code = ut_code test, ve_language = programmingLanguage\<rparr>
       | Some trimmedDescription \<Rightarrow>
           if trimmedDescription \<noteq> [] then
             \<lparr>ve_code = addDescriptionAsCommentForLanguage (ut_code test) trimmedDescription
                          programmingLanguage,
              ve_language = programmingLanguage\<rparr>
           else \<lparr>ve_code = ut_code test, ve_language = programmingLanguage\<rparr>))"

definition convertFileWorkshopExample :: "int \<Rightarrow> Example \<Rightarrow> error + ValidatedExample" where
  "convertFileWorkshopExample contextLines example =
     (case extractCodeWithContext contextLines example of
        Inl e \<Rightarrow> Inl e
      | Inr code \<Rightarrow>
          Inr \<lparr>ve_code = code,
               ve_language =
                 convertProgrammingLanguage
                   (case exampleLang example of None \<Rightarrow> [] | Some lang \<Rightarrow> lang)\<rparr>)"

text \<open>The two loops of \<open>convertPracticeToRule\<close>, pushing onto the two example arrays.\<close>

fun processUnitTests ::
  "string \<Rightarrow> DetectionUnitTest list \<Rightarrow> ValidatedExample list \<times> ValidatedExample list
   \<Rightarrow> ValidatedExample list \<times> ValidatedExample list" where
  "processUnitTests inferredLanguage [] (positiveExamples, negativeExamples) =
     (positiveExamples, negativeExamples)"
| "processUnitTests inferredLanguage (test # tests) (positiveExamples, negativeExamples) =
     (let example = convertUnitTestToExample test inferredLanguage in
      if ut_isCompliant test
      then processUnitTests inferredLanguage tests
             (positiveExamples @ [example], negativeExamples)
      else processUnitTests inferredLanguage tests
             (positiveExamples, negativeExamples @ [example]))"

definition hasContents :: "Example \<Rightarrow> bool" where
  "hasContents example =
     (case ex_fileWorkshop example of
        None \<Rightarrow> False
      | Some fileWorkshop \<Rightarrow> fw_contents fileWorkshop \<noteq> None)"

fun processFileExamples ::
  "int \<Rightarrow> Example list \<Rightarrow> ValidatedExample list \<times> ValidatedExample list
   \<Rightarrow> error + (ValidatedExample list \<times> ValidatedExample list)" where
  "processFileExamples contextLines [] (positiveExamples, negativeExamples) =
     Inr (positiveExamples, negativeExamples)"
| "processFileExamples contextLines (example # examples) (positiveExamples, negativeExamples) =
     (if hasContents example then
        (case convertFileWorkshopExample contextLines example of
           Inl e \<Rightarrow> Inl e
         | Inr validatedExample \<Rightarrow>
             if ex_isPositive example
             then processFileExamples contextLines examples
                    (positiveExamples @ [validatedExample], negativeExamples)
             else processFileExamples contextLines examples
                    (positiveExamples, negativeExamples @ [validatedExample]))
      else processFileExamples contextLines examples (positiveExamples, negativeExamples))"

definition buildDetectionProgram :: "ParsedPractice \<Rightarrow> bool \<Rightarrow> DetectionProgram option" where
  "buildDetectionProgram practice includeDetection =
     (case pp_toolings practice of
        None \<Rightarrow> None
      | Some toolings \<Rightarrow>
          if includeDetection \<and> tl_program toolings \<noteq> [] then
            Some \<lparr>dp_code = tl_program toolings,
                  dp_description = tl_programDescription toolings,
                  dp_language =
                    (if areAllExamplesAvro practice then AVRO else tl_language toolings)\<rparr>
          else None)"

definition convertPracticeToRule :: "int \<Rightarrow> ParsedPractice \<Rightarrow> error + ValidatedRule" where
  "convertPracticeToRule contextLines practice =
     (let includeDetection = shouldIncludeDetection practice;
          inferredLanguage = inferLanguage practice;
          fromTests =
            (case pp_detectionUnitTests practice of
               Some tests \<Rightarrow>
                 if includeDetection then processUnitTests inferredLanguage tests ([], [])
                 else ([], [])
             | None \<Rightarrow> ([], []))
      in (case processFileExamples contextLines (pp_examples practice) fromTests of
            Inl e \<Rightarrow> Inl e
          | Inr (positiveExamples, negativeExamples) \<Rightarrow>
              Inr \<lparr>vr_name = pp_name practice,
                   vr_positiveExamples = positiveExamples,
                   vr_negativeExamples = negativeExamples,
                   vr_detectionProgram = buildDetectionProgram practice includeDetection\<rparr>))"

text \<open>
  \<open>buildStandardDescription\<close>. \<open>practiceMap\<close> is keyed by practice name, a later
  practice replacing an earlier one of the same name; a rule with no practice gets the
  empty description.
\<close>

definition buildStandardDescription :: "ValidatedRule list \<Rightarrow> ParsedPractice list \<Rightarrow> string" where
  "buildStandardDescription rules practices =
     (let practiceMap = map_of (rev (map (\<lambda>practice. (pp_name practice, practice)) practices))
      in join [NL, NL]
           (map (\<lambda>rule.
                   let description =
                         (case practiceMap (vr_name rule) of
                            None \<Rightarrow> []
                          | Some practice \<Rightarrow> pp_description practice);
                       indentedDescription =
                         join [NL] (map (\<lambda>line. ''   '' @ line) (split_nl description))
                   in ''## '' @ vr_name rule @ [NL] @ indentedDescription)
              rules))"

section \<open>Parsed JSON and YAML values\<close>

text \<open>
  What \<open>JSON.parse\<close> and \<open>yaml.load\<close> return: a JavaScript value. \<open>JUndefined\<close> is
  what reading a missing property gives. An object is the list of its own properties.
\<close>

datatype jsval =
    JUndefined
  | JNull
  | JBool bool
  | JNum int
  | JStr string
  | JArr "jsval list"
  | JObj "(string \<times> jsval) list"

fun truthy :: "jsval \<Rightarrow> bool" where
  "truthy JUndefined = False"
| "truthy JNull = False"
| "truthy (JBool b) = b"
| "truthy (JNum n) = (n \<noteq> 0)"
| "truthy (JStr s) = (s \<noteq> [])"
| "truthy (JArr xs) = True"
| "truthy (JObj fs) = True"

fun nullish :: "jsval \<Rightarrow> bool" where
  "nullish JUndefined = True"
| "nullish JNull = True"
| "nullish v = False"

text \<open>
  \<open>v.key\<close> for a value that is neither \<open>null\<close> nor \<open>undefined\<close> and one of the
  property names the code reads (\<open>name\<close>, \<open>description\<close>, \<open>categories\<close>,
  \<open>examples\<close>, \<open>space\<close>, \<open>suggestionsDisabled\<close>, \<open>detectionUnitTests\<close>,
  \<open>guidelines\<close>, \<open>toolings\<close>, \<open>language\<close>, \<open>standards\<close>, \<open>practices\<close>): no
  primitive and no array has any of them. On \<open>null\<close> and \<open>undefined\<close> the read is a
  TypeError, which each caller tests with \<open>nullish\<close> first.
\<close>

fun getProp :: "jsval \<Rightarrow> string \<Rightarrow> jsval" where
  "getProp (JObj fs) key = (case map_of fs key of None \<Rightarrow> JUndefined | Some v \<Rightarrow> v)"
| "getProp v key = JUndefined"

text \<open>
  \<open>for (const x of v)\<close>: an array gives its elements and a string its characters, each
  a one-character string; nothing else a parser returns is iterable (\<open>None\<close>, a
  TypeError in the source).
\<close>

fun iterate :: "jsval \<Rightarrow> jsval list option" where
  "iterate (JArr xs) = Some xs"
| "iterate (JStr s) = Some (map (\<lambda>c. JStr [c]) s)"
| "iterate v = None"

section \<open>Parsing a practice\<close>

text \<open>
  The object \<open>parsePractice\<close> returns. The TypeScript casts are erased at run time, so
  each field holds the parsed value as it is; an optional field that was not set reads
  as \<open>JUndefined\<close>.
\<close>

record ParsedPracticeJson =
  pj_name :: jsval
  pj_description :: jsval
  pj_categories :: jsval
  pj_examples :: jsval
  pj_space :: jsval
  pj_suggestionsDisabled :: jsval
  pj_detectionUnitTests :: jsval
  pj_guidelines :: jsval
  pj_toolings :: jsval

text \<open>
  The validation of \<open>parsed.toolings\<close>: \<open>None\<close> when it passes. A language that is
  not a string has no \<open>trim\<close> method, so the call inside the \<open>try\<close> raises and the
  \<open>catch\<close> turns it into the same error as an unknown language.
\<close>

definition checkToolingsLanguage :: "jsval \<Rightarrow> error option" where
  "checkToolingsLanguage toolings =
     (let language = getProp toolings ''language'' in
      if \<not> truthy language then Some MissingToolingsLanguage
      else
        (case language of
           JStr input \<Rightarrow>
             (case stringToProgrammingLanguage input of
                Inl e \<Rightarrow> Some InvalidToolingsLanguage
              | Inr l \<Rightarrow> None)
         | _ \<Rightarrow> Some InvalidToolingsLanguage))"

text \<open>
  \<open>parsePractice\<close>, on the outcome of \<open>JSON.parse(jsonString)\<close>: \<open>None\<close> when it
  raises a SyntaxError.
\<close>

definition parsePractice :: "jsval option \<Rightarrow> error + ParsedPracticeJson" where
  "parsePractice jsonParsed =
     (case jsonParsed of
        None \<Rightarrow> Inl InvalidJSON
      | Some parsed \<Rightarrow>
          if nullish parsed then Inl TypeError
          else if \<not> truthy (getProp parsed ''name'') then Inl (MissingProperty ''name'')
          else if \<not> truthy (getProp parsed ''description'')
            then Inl (MissingProperty ''description'')
          else if \<not> truthy (getProp parsed ''categories'')
            then Inl (MissingProperty ''categories'')
          else if \<not> truthy (getProp parsed ''examples'') then Inl (MissingProperty ''examples'')
          else if \<not> truthy (getProp parsed ''space'') then Inl (MissingProperty ''space'')
          else
            let result =
                  \<lparr>pj_name = getProp parsed ''name'',
                   pj_description = getProp parsed ''description'',
                   pj_categories = getProp parsed ''categories'',
                   pj_examples = getProp parsed ''examples'',
                   pj_space = getProp parsed ''space'',
                   pj_suggestionsDisabled = getProp parsed ''suggestionsDisabled'',
                   pj_detectionUnitTests =
                     (if truthy (getProp parsed ''detectionUnitTests'')
                      then getProp parsed ''detectionUnitTests'' else JUndefined),
                   pj_guidelines =
                     (if truthy (getProp parsed ''guidelines'')
                      then getProp parsed ''guidelines'' else JUndefined),
                   pj_toolings = JUndefined\<rparr>
            in if truthy (getProp parsed ''toolings'') then
                 (case checkToolingsLanguage (getProp parsed ''toolings'') of
                    Some e \<Rightarrow> Inl e
                  | None \<Rightarrow> Inr (result\<lparr>pj_toolings := getProp parsed ''toolings''\<rparr>))
               else Inr result)"

section \<open>The standards mapping and its post-processing\<close>

record Standard =
  std_name :: string
  std_description :: string
  std_practices :: "string list"

record StandardsMapping =
  standards :: "Standard list"

text \<open>The key every name is compared by: \<open>name.toLowerCase().trim()\<close>.\<close>

definition normalizeName :: "string \<Rightarrow> string" where
  "normalizeName name = trim (toLowerCase name)"

text \<open>\<open>Map.prototype.set\<close> on an insertion-ordered Map: a known key keeps its place.\<close>

fun map_set :: "'k \<Rightarrow> 'v \<Rightarrow> ('k \<times> 'v) list \<Rightarrow> ('k \<times> 'v) list" where
  "map_set k v [] = [(k, v)]"
| "map_set k v ((k', v') # rest) =
     (if k' = k then (k', v) # rest else (k', v') # map_set k v rest)"

text \<open>
  \<open>extractOriginalPracticeNames\<close>, on the \<open>name\<close> of each entry of the \<open>practices\<close>
  array of the minified YAML file, in file order; an empty name is skipped.
\<close>

definition extractOriginalPracticeNames :: "string list \<Rightarrow> (string \<times> string) list" where
  "extractOriginalPracticeNames names =
     foldl (\<lambda>practiceMap name.
              if name \<noteq> [] then map_set (normalizeName name) name practiceMap
              else practiceMap)
       [] names"

definition mappedPractices :: "StandardsMapping \<Rightarrow> string list" where
  "mappedPractices mapping =
     map normalizeName (concat (map std_practices (standards mapping)))"

definition findMissingPractices ::
  "(string \<times> string) list \<Rightarrow> StandardsMapping \<Rightarrow> string list" where
  "findMissingPractices originalPractices mapping =
     map snd
       (filter (\<lambda>(normalized, original). normalized \<notin> set (mappedPractices mapping))
          originalPractices)"

subsection \<open>removeDuplicatesRandomly\<close>

record Location =
  categoryIndex :: nat
  practiceIndex :: nat
  practiceName :: string

text \<open>
  The locations the two nested loops visit, in the order they visit them; an empty
  practice name fails \<open>if (practice)\<close> and is not recorded.
\<close>

definition categoryLocations :: "nat \<Rightarrow> Standard \<Rightarrow> Location list" where
  "categoryLocations catIdx category =
     map (\<lambda>(practiceIdx, practice).
            \<lparr>categoryIndex = catIdx, practiceIndex = practiceIdx, practiceName = practice\<rparr>)
       (filter (\<lambda>(practiceIdx, practice). practice \<noteq> [])
          (enumerate 0 (std_practices category)))"

definition allLocations :: "Standard list \<Rightarrow> Location list" where
  "allLocations stds =
     concat (map (\<lambda>(catIdx, category). categoryLocations catIdx category) (enumerate 0 stds))"

text \<open>\<open>practiceLocations\<close>: a new key is appended with an empty list, then the location is pushed.\<close>

fun pushLocation ::
  "string \<Rightarrow> Location \<Rightarrow> (string \<times> Location list) list \<Rightarrow> (string \<times> Location list) list" where
  "pushLocation normalized loc [] = [(normalized, [loc])]"
| "pushLocation normalized loc ((k, locs) # rest) =
     (if k = normalized then (k, locs @ [loc]) # rest
      else (k, locs) # pushLocation normalized loc rest)"

definition practiceLocations :: "Standard list \<Rightarrow> (string \<times> Location list) list" where
  "practiceLocations stds =
     foldl (\<lambda>m loc. pushLocation (normalizeName (practiceName loc)) loc m) []
       (allLocations stds)"

text \<open>The locations at every index but \<open>keepIndex\<close>, as (categoryIndex, practiceIndex).\<close>

definition otherLocations :: "nat \<Rightarrow> Location list \<Rightarrow> (nat \<times> nat) list" where
  "otherLocations keepIndex locations =
     map (\<lambda>(i, loc). (categoryIndex loc, practiceIndex loc))
       (filter (\<lambda>(i, loc). i \<noteq> keepIndex) (enumerate 0 locations))"

text \<open>
  The loop over \<open>practiceLocations\<close>. \<open>random n\<close> is the value of the \<open>n\<close>-th call of
  \<open>Math.random()\<close>, and the loop returns how many calls it has made. With a value
  outside \<open>[0, 1)\<close> the index is outside the array, \<open>keepLocation\<close> is \<open>undefined\<close> and
  reading its \<open>categoryIndex\<close> is a TypeError.
\<close>

fun markDuplicates ::
  "(nat \<Rightarrow> rat) \<Rightarrow> nat \<Rightarrow> (string \<times> Location list) list \<Rightarrow> error + ((nat \<times> nat) list \<times> nat)" where
  "markDuplicates random n [] = Inr ([], n)"
| "markDuplicates random n ((normalized, locations) # rest) =
     (if length locations > 1 then
        let keepIndex = \<lfloor>random n * of_nat (length locations)\<rfloor> in
        if 0 \<le> keepIndex \<and> keepIndex < int (length locations) then
          (case markDuplicates random (Suc n) rest of
             Inl e \<Rightarrow> Inl e
           | Inr (indicesToRemove, n') \<Rightarrow>
               Inr (otherLocations (nat keepIndex) locations @ indicesToRemove, n'))
        else Inl TypeError
      else markDuplicates random n rest)"

text \<open>The comparator of \<open>indicesToRemove.sort\<close>: category index descending, then practice index descending.\<close>

definition compareRemoval :: "nat \<times> nat \<Rightarrow> nat \<times> nat \<Rightarrow> int" where
  "compareRemoval a b =
     (if fst a \<noteq> fst b then int (fst b) - int (fst a) else int (snd b) - int (snd a))"

text \<open>\<open>xs.splice(i, 1)\<close>, for the array it leaves.\<close>

definition splice1 :: "nat \<Rightarrow> 'a list \<Rightarrow> 'a list" where
  "splice1 i xs = take i xs @ drop (Suc i) xs"

definition removePractice :: "Standard list \<Rightarrow> nat \<times> nat \<Rightarrow> Standard list" where
  "removePractice stds idx =
     (case idx of (catIdx, practiceIdx) \<Rightarrow>
        if catIdx < length stds then
          stds[catIdx := (stds ! catIdx)
                 \<lparr>std_practices := splice1 practiceIdx (std_practices (stds ! catIdx))\<rparr>]
        else stds)"

text \<open>
  \<open>removeDuplicatesRandomly\<close>: the cleaned mapping, \<open>duplicatesRemoved\<close>, and the number
  of \<open>Math.random()\<close> calls made so far.
\<close>

definition removeDuplicatesRandomly ::
  "(nat \<Rightarrow> rat) \<Rightarrow> nat \<Rightarrow> StandardsMapping \<Rightarrow> error + (StandardsMapping \<times> nat \<times> nat)" where
  "removeDuplicatesRandomly random n data =
     (case markDuplicates random n (practiceLocations (standards data)) of
        Inl e \<Rightarrow> Inl e
      | Inr (indicesToRemove, n') \<Rightarrow>
          Inr (data\<lparr>standards :=
                      foldl removePractice (standards data)
                        (js_sort compareRemoval indicesToRemove)\<rparr>,
               length indicesToRemove, n'))"

subsection \<open>mergeRetryResults\<close>

text \<open>
  \<open>existingByName\<close> maps a normalized standard name to the standard object; the object
  is identified here by its index in \<open>existing.standards\<close>, which is where the push
  through the Map lands.
\<close>

definition existingByName :: "Standard list \<Rightarrow> (string \<times> nat) list" where
  "existingByName stds =
     foldl (\<lambda>m (idx, category). map_set (normalizeName (std_name category)) idx m) []
       (enumerate 0 stds)"

text \<open>
  The inner loop: each practice of the retry category is pushed unless the existing
  standard already has it. Calling \<open>toLowerCase\<close> on anything but a string is a
  TypeError.
\<close>

fun mergePractices :: "jsval list \<Rightarrow> string list \<Rightarrow> error + string list" where
  "mergePractices [] practices = Inr practices"
| "mergePractices (JStr practice # rest) practices =
     (let normalizedPractice = normalizeName practice;
          alreadyExists = list_ex (\<lambda>p. normalizeName p = normalizedPractice) practices
      in if \<not> alreadyExists then mergePractices rest (practices @ [practice])
         else mergePractices rest practices)"
| "mergePractices (v # rest) practices = Inl TypeError"

text \<open>
  The outer loop over \<open>retryData.standards\<close>. Reading \<open>name\<close> of \<open>null\<close>, calling
  \<open>toLowerCase\<close> on a name that is not a string, and iterating practices that are
  neither an array nor a string are TypeErrors; nothing catches them.
\<close>

fun mergeCategories ::
  "(string \<times> nat) list \<Rightarrow> jsval list \<Rightarrow> Standard list \<Rightarrow> error + Standard list" where
  "mergeCategories byName [] stds = Inr stds"
| "mergeCategories byName (retryCategory # rest) stds =
     (if nullish retryCategory then Inl TypeError
      else
        (case getProp retryCategory ''name'' of
           JStr name \<Rightarrow>
             (case map_of byName (normalizeName name) of
                None \<Rightarrow> mergeCategories byName rest stds
              | Some idx \<Rightarrow>
                  if truthy (getProp retryCategory ''practices'') then
                    (case iterate (getProp retryCategory ''practices'') of
                       None \<Rightarrow> Inl TypeError
                     | Some practices \<Rightarrow>
                         (case mergePractices practices (std_practices (stds ! idx)) of
                            Inl e \<Rightarrow> Inl e
                          | Inr merged \<Rightarrow>
                              mergeCategories byName rest
                                (stds[idx := (stds ! idx)\<lparr>std_practices := merged\<rparr>])))
                  else mergeCategories byName rest stds)
         | _ \<Rightarrow> Inl TypeError))"

text \<open>
  \<open>mergeRetryResults\<close>, on the outcome of \<open>yaml.load(parseLLMResponse(retryResponse))\<close>:
  \<open>None\<close> when \<open>yaml.load\<close> raises, which the \<open>try\<close> catches.
\<close>

definition mergeRetryResults :: "StandardsMapping \<Rightarrow> jsval option \<Rightarrow> error + StandardsMapping" where
  "mergeRetryResults existing retryLoaded =
     (case retryLoaded of
        None \<Rightarrow> Inr existing
      | Some retryData \<Rightarrow>
          if nullish retryData \<or> \<not> truthy (getProp retryData ''standards'') then Inr existing
          else
            (case iterate (getProp retryData ''standards'') of
               None \<Rightarrow> Inl TypeError
             | Some retryStandards \<Rightarrow>
                 (case mergeCategories (existingByName (standards existing)) retryStandards
                         (standards existing) of
                    Inl e \<Rightarrow> Inl e
                  | Inr stds \<Rightarrow> Inr (existing\<lparr>standards := stds\<rparr>))))"

subsection \<open>postProcessMapping\<close>

text \<open>
  What one call of \<open>llmService.executePrompt\<close> in the retry loop comes to: it raises,
  or it returns a text, kept as the outcome of \<open>yaml.load\<close> on it.
\<close>

datatype retry_reply =
    LLMRaises
  | LLMReturns "jsval option"

definition MAX_RETRIES :: nat where
  "MAX_RETRIES = 5"

text \<open>
  The \<open>for\<close> loop of \<open>postProcessMapping\<close> from \<open>attempt\<close> on. \<open>llm attempt\<close> is the reply
  to the retry prompt of that attempt.
\<close>

function postProcessLoop ::
  "(nat \<Rightarrow> rat) \<Rightarrow> (nat \<Rightarrow> retry_reply) \<Rightarrow> (string \<times> string) list \<Rightarrow> nat \<Rightarrow> nat
   \<Rightarrow> StandardsMapping \<Rightarrow> error + StandardsMapping" where
  "postProcessLoop random llm originalPractices attempt n mapping =
     (if attempt \<le> MAX_RETRIES then
        (case removeDuplicatesRandomly random n mapping of
           Inl e \<Rightarrow> Inl e
         | Inr (deduped, duplicatesRemoved, n') \<Rightarrow>
             if findMissingPractices originalPractices deduped = [] then Inr deduped
             else if attempt < MAX_RETRIES then
               (case llm attempt of
                  LLMRaises \<Rightarrow> Inl LLMError
                | LLMReturns retryLoaded \<Rightarrow>
                    (case mergeRetryResults deduped retryLoaded of
                       Inl e \<Rightarrow> Inl e
                     | Inr merged \<Rightarrow>
                         postProcessLoop random llm originalPractices (Suc attempt) n' merged))
             else postProcessLoop random llm originalPractices (Suc attempt) n' deduped)
      else Inr mapping)"
  by pat_completeness auto
termination
  by (relation "measure (\<lambda>(random, llm, originalPractices, attempt, n, mapping).
                            Suc MAX_RETRIES - attempt)") auto

declare postProcessLoop.simps [simp del]

definition toCategorize :: "string list \<Rightarrow> Standard" where
  "toCategorize finalMissing =
     \<lparr>std_name = ''To Categorize'',
      std_description =
        ''Practices that could not be automatically categorized after multiple attempts'',
      std_practices = finalMissing\<rparr>"

definition postProcessMapping ::
  "(nat \<Rightarrow> rat) \<Rightarrow> (nat \<Rightarrow> retry_reply) \<Rightarrow> StandardsMapping \<Rightarrow> (string \<times> string) list
   \<Rightarrow> error + StandardsMapping" where
  "postProcessMapping random llm mapping originalPractices =
     (case postProcessLoop random llm originalPractices 1 0 mapping of
        Inl e \<Rightarrow> Inl e
      | Inr looped \<Rightarrow>
          let finalMissing = findMissingPractices originalPractices looped in
          if finalMissing \<noteq> [] then
            Inr (looped\<lparr>standards := standards looped @ [toCategorize finalMissing]\<rparr>)
          else Inr looped)"

definition allMembers :: "StandardsMapping \<Rightarrow> string list" where
  "allMembers mapping = concat (map std_practices (standards mapping))"

section \<open>Terms of the specification\<close>

text \<open>
  The definitions of this section are not translations of source functions: they say,
  in the specification's words, what the theorems below compare the code with.
\<close>

text \<open>The detection-inclusion policy: suggestions not disabled, tooling present, status SUCCESS.\<close>

definition eligible :: "ParsedPractice \<Rightarrow> bool" where
  "eligible practice =
     (pp_suggestionsDisabled practice \<noteq> Some True
      \<and> (case pp_toolings practice of
            None \<Rightarrow> False
          | Some toolings \<Rightarrow> tl_status toolings = ''SUCCESS''))"

definition unitTestsOf :: "ParsedPractice \<Rightarrow> DetectionUnitTest list" where
  "unitTestsOf practice =
     (case pp_detectionUnitTests practice of None \<Rightarrow> [] | Some tests \<Rightarrow> tests)"

text \<open>The language tags of the file examples that have one, lower-cased.\<close>

definition exampleTags :: "ParsedPractice \<Rightarrow> string list" where
  "exampleTags practice = map toLowerCase (exampleLanguages practice)"

text \<open>A \<open>toolings\<close> value whose \<open>language\<close> is a string that resolves to a language.\<close>

definition languageResolves :: "jsval \<Rightarrow> bool" where
  "languageResolves toolings =
     (case getProp toolings ''language'' of
        JStr input \<Rightarrow>
          (case stringToProgrammingLanguage input of Inl e \<Rightarrow> False | Inr l \<Rightarrow> True)
      | _ \<Rightarrow> False)"

definition requiredPresent :: "jsval \<Rightarrow> bool" where
  "requiredPresent parsed =
     list_all (\<lambda>key. truthy (getProp parsed key))
       [''name'', ''description'', ''categories'', ''examples'', ''space'']"

text \<open>An example that is a snapshot with a line range, and the lines of a snapshot in a range.\<close>

definition snapshotOf :: "FileContent list \<Rightarrow> int \<Rightarrow> int \<Rightarrow> Example" where
  "snapshotOf contents beginLine endLine =
     \<lparr>ex_beginLine = beginLine, ex_endLine = endLine,
      ex_fileWorkshop = Some \<lparr>fw_contents = Some contents, fw_lang = None\<rparr>,
      ex_isPositive = True\<rparr>"

definition linesBetween :: "FileContent list \<Rightarrow> int \<Rightarrow> int \<Rightarrow> FileContent list" where
  "linesBetween contents lo hi = filter (\<lambda>c. lo \<le> fc_line c \<and> fc_line c \<le> hi) contents"

text \<open>
  The members the duplicate removal looks at (an empty name is skipped by it), and the
  members it has no reason to touch: the empty names, and the names that no other
  non-empty member equals after lower-casing and trimming.
\<close>

definition trackedMembers :: "StandardsMapping \<Rightarrow> string list" where
  "trackedMembers mapping = filter (\<lambda>p. p \<noteq> []) (allMembers mapping)"

definition neverDuplicated :: "StandardsMapping \<Rightarrow> string \<Rightarrow> bool" where
  "neverDuplicated mapping p =
     (p = []
      \<or> length (filter (\<lambda>q. normalizeName q = normalizeName p) (trackedMembers mapping)) \<le> 1)"

text \<open>The contract of \<open>Math.random()\<close>: every value lies in \<open>[0, 1)\<close>.\<close>

definition unitInterval :: "(nat \<Rightarrow> rat) \<Rightarrow> bool" where
  "unitInterval random = (\<forall>i. 0 \<le> random i \<and> random i < 1)"

text \<open>
  The retry replies the loop survives: the call returns, and the text fails to parse,
  or parses to a value without a truthy \<open>standards\<close>, or parses to the expected shape,
  a list of standards each with a string name and a list of string practices.
\<close>

definition isJStr :: "jsval \<Rightarrow> bool" where
  "isJStr v = (case v of JStr s \<Rightarrow> True | _ \<Rightarrow> False)"

definition categoryShape :: "jsval \<Rightarrow> bool" where
  "categoryShape c =
     (case getProp c ''name'' of
        JStr name \<Rightarrow>
          (case getProp c ''practices'' of JArr ps \<Rightarrow> list_all isJStr ps | _ \<Rightarrow> False)
      | _ \<Rightarrow> False)"

definition expectedRetryShape :: "jsval \<Rightarrow> bool" where
  "expectedRetryShape v =
     (case getProp v ''standards'' of
        JArr cats \<Rightarrow> list_all categoryShape cats
      | _ \<Rightarrow> False)"

definition acceptableReply :: "retry_reply \<Rightarrow> bool" where
  "acceptableReply reply =
     (case reply of
        LLMRaises \<Rightarrow> False
      | LLMReturns None \<Rightarrow> True
      | LLMReturns (Some v) \<Rightarrow>
          nullish v \<or> \<not> truthy (getProp v ''standards'') \<or> expectedRetryShape v)"

section \<open>Auxiliary definitions for the proofs\<close>

definition locKey :: "Location \<Rightarrow> string" where
  "locKey loc = normalizeName (practiceName loc)"

definition locPos :: "Location \<Rightarrow> nat \<times> nat" where
  "locPos loc = (categoryIndex loc, practiceIndex loc)"

text \<open>The practices of category \<open>c\<close> whose position is not in \<open>R\<close>, and a mapping cut down so.\<close>

definition keepOutside :: "(nat \<times> nat) set \<Rightarrow> nat \<Rightarrow> string list \<Rightarrow> string list" where
  "keepOutside R c ps = map snd (filter (\<lambda>(i, p). (c, i) \<notin> R) (enumerate 0 ps))"

definition withoutIndices :: "(nat \<times> nat) set \<Rightarrow> Standard list \<Rightarrow> Standard list" where
  "withoutIndices R stds =
     map (\<lambda>(c, category). category\<lparr>std_practices := keepOutside R c (std_practices category)\<rparr>)
       (enumerate 0 stds)"

text \<open>The order \<open>compareRemoval\<close> sorts by, as a key in the lexicographic order of pairs.\<close>

definition removalKey :: "nat \<times> nat \<Rightarrow> int \<times> int" where
  "removalKey a = (- int (fst a), - int (snd a))"

definition locsOf :: "(string \<times> Location list) list \<Rightarrow> string \<Rightarrow> Location list" where
  "locsOf pl k = (case map_of pl k of None \<Rightarrow> [] | Some locs \<Rightarrow> locs)"

definition locationsFrom :: "nat \<Rightarrow> Standard list \<Rightarrow> Location list" where
  "locationsFrom n stds =
     concat (map (\<lambda>(catIdx, category). categoryLocations catIdx category) (enumerate n stds))"

definition pushAll ::
  "(string \<times> Location list) list \<Rightarrow> Location list \<Rightarrow> (string \<times> Location list) list" where
  "pushAll pl L = foldl (\<lambda>m loc. pushLocation (normalizeName (practiceName loc)) loc m) pl L"

definition extractInto :: "(string \<times> string) list \<Rightarrow> string list \<Rightarrow> (string \<times> string) list" where
  "extractInto m names =
     foldl (\<lambda>practiceMap name.
              if name \<noteq> [] then map_set (normalizeName name) name practiceMap
              else practiceMap)
       m names"

definition dedupd :: "StandardsMapping \<Rightarrow> bool" where
  "dedupd mapping = distinct (map normalizeName (trackedMembers mapping))"


section \<open>The occurrence that duplicate resolution retains\<close>







section \<open>Sample inputs\<close>

definition twoLineDescription :: string where
  "twoLineDescription = ''Line 1'' @ [NL] @ ''Line 2''"

definition sampleToolings :: Toolings where
  "sampleToolings =
     \<lparr>tl_status = ''SUCCESS'',
      tl_program = ''function checkSourceCode(ast) { return []; }'',
      tl_programDescription = ''Checks source code for violations'',
      tl_language = ''KOTLIN''\<rparr>"

definition practiceNoExamples :: ParsedPractice where
  "practiceNoExamples =
     \<lparr>pp_name = ''Test Practice'', pp_description = ''Test description'',
      pp_suggestionsDisabled = Some False, pp_detectionUnitTests = Some [],
      pp_examples = [], pp_toolings = Some sampleToolings\<rparr>"

definition practiceEmptyProgram :: ParsedPractice where
  "practiceEmptyProgram =
     \<lparr>pp_name = ''Test Practice'', pp_description = ''Test description'',
      pp_suggestionsDisabled = None, pp_detectionUnitTests = None,
      pp_examples = [], pp_toolings = Some (sampleToolings\<lparr>tl_program := []\<rparr>)\<rparr>"

definition fiveLines :: "FileContent list" where
  "fiveLines =
     [\<lparr>fc_line = 3, fc_content = ''line 3''\<rparr>, \<lparr>fc_line = 1, fc_content = ''line 1''\<rparr>,
      \<lparr>fc_line = 2, fc_content = ''line 2''\<rparr>, \<lparr>fc_line = 5, fc_content = ''line 5''\<rparr>,
      \<lparr>fc_line = 4, fc_content = ''line 4''\<rparr>]"

definition fileExample :: "string \<Rightarrow> bool \<Rightarrow> Example" where
  "fileExample lang isPositive =
     \<lparr>ex_beginLine = 3, ex_endLine = 3,
      ex_fileWorkshop = Some \<lparr>fw_contents = Some fiveLines, fw_lang = Some lang\<rparr>,
      ex_isPositive = isPositive\<rparr>"

definition sampleUnitTest :: "bool \<Rightarrow> DetectionUnitTest" where
  "sampleUnitTest isCompliant =
     \<lparr>ut_description = Some ''Test description'', ut_code = ''fun test() {}'',
      ut_isCompliant = isCompliant\<rparr>"

text \<open>
  Suggestions disabled, a tooling with status SUCCESS, two file examples (one positive,
  one negative) and three unit tests.
\<close>

definition practiceSuggestionsDisabled :: ParsedPractice where
  "practiceSuggestionsDisabled =
     \<lparr>pp_name = ''Test Practice'', pp_description = ''Test description'',
      pp_suggestionsDisabled = Some True,
      pp_detectionUnitTests =
        Some [sampleUnitTest True, sampleUnitTest False, sampleUnitTest True],
      pp_examples = [fileExample ''kt'' True, fileExample ''kt'' False],
      pp_toolings = Some sampleToolings\<rparr>"

definition practiceAvro :: ParsedPractice where
  "practiceAvro =
     \<lparr>pp_name = ''Schema Practice'', pp_description = ''Schema description'',
      pp_suggestionsDisabled = Some False, pp_detectionUnitTests = None,
      pp_examples = [fileExample ''AVSC'' True, fileExample ''avdl'' False],
      pp_toolings = Some sampleToolings\<rparr>"

definition sameLineA :: "FileContent list" where
  "sameLineA = [\<lparr>fc_line = 1, fc_content = ''a''\<rparr>, \<lparr>fc_line = 1, fc_content = ''b''\<rparr>]"

definition sameLineB :: "FileContent list" where
  "sameLineB = [\<lparr>fc_line = 1, fc_content = ''b''\<rparr>, \<lparr>fc_line = 1, fc_content = ''a''\<rparr>]"

definition ruleNamed :: "string \<Rightarrow> ValidatedRule" where
  "ruleNamed n =
     \<lparr>vr_name = n, vr_positiveExamples = [], vr_negativeExamples = [],
      vr_detectionProgram = None\<rparr>"

definition practiceNamed :: "string \<Rightarrow> string \<Rightarrow> ParsedPractice" where
  "practiceNamed n d =
     \<lparr>pp_name = n, pp_description = d, pp_suggestionsDisabled = Some False,
      pp_detectionUnitTests = Some [], pp_examples = [], pp_toolings = None\<rparr>"

definition parsedWithToolings :: "jsval \<Rightarrow> jsval" where
  "parsedWithToolings language =
     JObj [(''name'', JStr ''Test Practice''), (''description'', JStr ''Test description''),
           (''categories'', JArr [JStr ''Testing'']), (''examples'', JArr []),
           (''space'', JStr ''671a094106587d064f56ba82''),
           (''toolings'', JObj [(''status'', JStr ''SUCCESS''), (''language'', language)])]"

definition existingTwo :: StandardsMapping where
  "existingTwo =
     \<lparr>standards =
        [\<lparr>std_name = ''Group 1'', std_description = ''first'',
          std_practices = [''p1'', ''p2'', ''p3'', ''p4'']\<rparr>,
         \<lparr>std_name = ''Group 2'', std_description = ''second'',
          std_practices = [''p5'', ''p6'']\<rparr>]\<rparr>"

text \<open>
  What \<open>yaml.load\<close> returns for a retry response whose only standard has practices
  but no name:
  \<^verbatim>\<open>standards:\<close>
  \<^verbatim>\<open>  - practices:\<close>
  \<^verbatim>\<open>      - p7\<close>
\<close>

definition retryNoName :: jsval where
  "retryNoName = JObj [(''standards'', JArr [JObj [(''practices'', JArr [JStr ''p7''])]])]"

text \<open>
  Sources of random values and of retry replies: \<open>Math.random()\<close> always returning
  zero, or one half; a classifier whose every retry reply fails to parse, and one whose
  every retry reply is \<open>retryNoName\<close>.
\<close>

definition zeroRandom :: "nat \<Rightarrow> rat" where
  "zeroRandom i = 0"

definition halfRandom :: "nat \<Rightarrow> rat" where
  "halfRandom i = 1 / 2"

definition neverParses :: "nat \<Rightarrow> retry_reply" where
  "neverParses attempt = LLMReturns None"

definition repliesNoName :: "nat \<Rightarrow> retry_reply" where
  "repliesNoName attempt = LLMReturns (Some retryNoName)"

text \<open>
  What \<open>yaml.load\<close> returns for a retry response of the expected shape, which assigns
  \<open>p7\<close> to the first group, named in another case:
  \<^verbatim>\<open>standards:\<close>
  \<^verbatim>\<open>  - name: "group 1"\<close>
  \<^verbatim>\<open>    practices:\<close>
  \<^verbatim>\<open>      - "p7"\<close>
\<close>

definition retryAssignsP7 :: jsval where
  "retryAssignsP7 =
     JObj [(''standards'',
            JArr [JObj [(''name'', JStr ''group 1''), (''practices'', JArr [JStr ''p7''])]])]"

definition repliesP7 :: "nat \<Rightarrow> retry_reply" where
  "repliesP7 attempt = LLMReturns (Some retryAssignsP7)"

definition sevenNames :: "string list" where
  "sevenNames = [''p1'', ''p2'', ''p3'', ''p4'', ''p5'', ''p6'', ''p7'']"

text \<open>The name \<open>p3\<close> in two groups, the second time with another case and a trailing blank.\<close>

definition duplicatedMapping :: StandardsMapping where
  "duplicatedMapping =
     \<lparr>standards =
        [\<lparr>std_name = ''Group 1'', std_description = ''first'',
          std_practices = [''p1'', ''p2'', ''p3'', ''p4'']\<rparr>,
         \<lparr>std_name = ''Group 2'', std_description = ''second'',
          std_practices = [''P3 '', ''p5'', ''p6'']\<rparr>]\<rparr>"




definition ghostMapping :: StandardsMapping where
  "ghostMapping =
     \<lparr>standards =
        [\<lparr>std_name = ''Group 1'', std_description = ''first'',
          std_practices = [''p1'', ''ghost'']\<rparr>]\<rparr>"

section \<open>Language resolution\<close>

lemma trim_Nil: "trim [] = []"
  by (simp add: trim_def)

lemma find_None_lower: "(find (\<lambda>v. f v = t) xs = None) = (t \<notin> set (map f xs))"
  by (induction xs) auto

lemma find_Some_mem: "find P xs = Some x \<Longrightarrow> x \<in> set xs"
  by (induction xs) (auto split: if_splits)

lemma find_ext_None:
  "(find (\<lambda>(language, info). list_ex (\<lambda>ext. f ext = t) (fileExtensions info)) xs = None)
   = (t \<notin> set (map f (concat (map (\<lambda>(language, info). fileExtensions info) xs))))"
  by (auto simp: find_None_iff list_ex_iff)

lemma find_display_None:
  "(find (\<lambda>(language, info). f (displayName info) = t) xs = None)
   = (t \<notin> set (map f (map (\<lambda>(language, info). displayName info) xs)))"
  by (induction xs) auto

lemma details_keys_values:
  "set (map fst ProgrammingLanguageDetails) \<subseteq> set ProgrammingLanguage_values"
  by (simp add: ProgrammingLanguageDetails_def ProgrammingLanguage_values_def)

lemma aliases_values:
  "map_of LANGUAGE_ALIASES k = Some v \<Longrightarrow> v \<in> set ProgrammingLanguage_values"
  by (auto simp: LANGUAGE_ALIASES_def ProgrammingLanguage_values_def split: if_splits)

lemma stringToProgrammingLanguage_empty:
  "trim input = [] \<Longrightarrow> stringToProgrammingLanguage input = Inl EmptyLanguageInput"
  by (simp add: stringToProgrammingLanguage_def)

lemma stringToProgrammingLanguage_unknown:
  assumes "trim input \<noteq> []" "\<not> recognisedLanguage (trim input)"
  shows "stringToProgrammingLanguage input = Inl (UnknownLanguage (trim input))"
proof -
  from assms(2) have a: "map_of LANGUAGE_ALIASES (toUpperCase (trim input)) = None"
    by (simp add: recognisedLanguage_def map_of_eq_None_iff)
  from assms(2) have n: "toLowerCase (trim input) \<notin> set (map toLowerCase languageNames)"
    by (simp add: recognisedLanguage_def)
  have 1: "find (\<lambda>v. toLowerCase v = toLowerCase (trim input)) ProgrammingLanguage_values = None"
    using n by (simp add: find_None_lower languageNames_def)
  have 2: "find (\<lambda>(language, info). toLowerCase (displayName info) = toLowerCase (trim input))
             ProgrammingLanguageDetails = None"
    using n unfolding find_display_None by (simp add: languageNames_def)
  have 3: "find (\<lambda>(language, info).
                   list_ex (\<lambda>ext. toLowerCase ext = toLowerCase (trim input))
                     (fileExtensions info))
             ProgrammingLanguageDetails = None"
    using n unfolding find_ext_None by (simp add: languageNames_def)
  show ?thesis
    using assms(1) a 1 2 3 by (simp add: stringToProgrammingLanguage_def Let_def)
qed

lemma stringToProgrammingLanguage_known:
  assumes "trim input \<noteq> []" "recognisedLanguage (trim input)"
  shows "\<exists>l \<in> set ProgrammingLanguage_values. stringToProgrammingLanguage input = Inr l"
proof (cases "stringToProgrammingLanguage input")
  case (Inr l)
  have "l \<in> set ProgrammingLanguage_values"
    using Inr assms(1) details_keys_values
    by (auto simp: stringToProgrammingLanguage_def Let_def split: option.splits prod.splits
        dest!: find_Some_mem aliases_values)
  then show ?thesis using Inr by simp
next
  case (Inl e)
  have "\<not> recognisedLanguage (trim input)"
    using Inl assms(1)
    by (auto simp: stringToProgrammingLanguage_def Let_def recognisedLanguage_def
        languageNames_def find_None_lower find_display_None find_ext_None map_of_eq_None_iff
        split: option.splits prod.splits)
  with assms(2) show ?thesis by simp
qed

lemma convertProgrammingLanguage_in_values:
  "convertProgrammingLanguage input \<in> set ProgrammingLanguage_values"
proof -
  have g: "GENERIC \<in> set ProgrammingLanguage_values"
    by (simp add: ProgrammingLanguage_values_def)
  show ?thesis
    using g details_keys_values
    by (auto simp: convertProgrammingLanguage_def Let_def split: option.splits
        dest!: find_Some_mem)
qed

lemma convertProgrammingLanguage_generic:
  assumes "trim input = [] \<or> \<not> recognisedLanguage (trim input)"
  shows "convertProgrammingLanguage input = GENERIC"
proof (cases "trim input = []")
  case True
  then show ?thesis by (simp add: convertProgrammingLanguage_def)
next
  case False
  with assms have "toLowerCase (trim input) \<notin> set (map toLowerCase languageNames)"
    by (simp add: recognisedLanguage_def)
  then have "find (\<lambda>(language, info).
                     list_ex (\<lambda>ext. toLowerCase ext = toLowerCase (trim input))
                       (fileExtensions info))
               ProgrammingLanguageDetails = None"
    unfolding find_ext_None by (simp add: languageNames_def)
  then show ?thesis by (simp add: convertProgrammingLanguage_def Let_def)
qed

text \<open>
  Claim C2, as stated, fails: \<open>stringToProgrammingLanguage\<close> raises on the non-empty input
  \<open>xyz\<close>, which names no language.
\<close>

theorem stringToProgrammingLanguage_nonempty_counterexample:
  "''xyz'' \<noteq> [] \<and> stringToProgrammingLanguage ''xyz'' = Inl (UnknownLanguage ''xyz'')"
  by code_simp

text \<open>
  Claim C2, amended: \<open>stringToProgrammingLanguage\<close> raises on an empty or
  whitespace-only input and on every input that, trimmed, matches no alias, enum value,
  display name or file extension case-insensitively, and returns a language of the enum
  on every other input; \<open>convertProgrammingLanguage\<close> never raises, always returns a
  language of the enum, and returns \<open>GENERIC\<close> on the inputs on which
  \<open>stringToProgrammingLanguage\<close> raises.
\<close>

theorem language_resolution_errors_and_fallback:
  "(trim input = [] \<longrightarrow> stringToProgrammingLanguage input = Inl EmptyLanguageInput)
   \<and> (trim input \<noteq> [] \<and> \<not> recognisedLanguage (trim input) \<longrightarrow>
        stringToProgrammingLanguage input = Inl (UnknownLanguage (trim input)))
   \<and> (trim input \<noteq> [] \<and> recognisedLanguage (trim input) \<longrightarrow>
        (\<exists>l \<in> set ProgrammingLanguage_values. stringToProgrammingLanguage input = Inr l))
   \<and> convertProgrammingLanguage input \<in> set ProgrammingLanguage_values
   \<and> (trim input = [] \<or> \<not> recognisedLanguage (trim input) \<longrightarrow>
        convertProgrammingLanguage input = GENERIC)"
  using stringToProgrammingLanguage_empty stringToProgrammingLanguage_unknown
    stringToProgrammingLanguage_known convertProgrammingLanguage_in_values
    convertProgrammingLanguage_generic
  by blast

text \<open>
  Witness for C2: the empty input, the unknown input \<open>xyz\<close> and the extension \<open>Kt\<close>
  with surrounding blanks.
\<close>

theorem language_resolution_errors_and_fallback_witness:
  "stringToProgrammingLanguage [] = Inl EmptyLanguageInput
   \<and> stringToProgrammingLanguage ''xyz'' = Inl (UnknownLanguage ''xyz'')
   \<and> convertProgrammingLanguage ''xyz'' = GENERIC
   \<and> (\<exists>l \<in> set ProgrammingLanguage_values. stringToProgrammingLanguage '' Kt '' = Inr l)"
proof -
  have t0: "trim [] = []" by code_simp
  have t1: "trim ''xyz'' = ''xyz''" by code_simp
  have r1: "\<not> recognisedLanguage ''xyz''" by code_simp
  have t2: "trim '' Kt '' = ''Kt''" by code_simp
  have r2: "recognisedLanguage ''Kt''" by code_simp
  show ?thesis
    using language_resolution_errors_and_fallback [of "[]"]
      language_resolution_errors_and_fallback [of "''xyz''"]
      language_resolution_errors_and_fallback [of "'' Kt ''"]
    by (simp add: t0 t1 r1 t2 r2)
qed

section \<open>Comment injection\<close>

lemma commentStyle_suffix:
  "getCommentStyleForLanguage lang = Some st
   \<Longrightarrow> cs_suffix st = None \<or> cs_suffix st = Some ''-->''"
  by (auto simp: getCommentStyleForLanguage_def split: if_splits)

lemma addDescription_commented:
  assumes "trim description \<noteq> []" "getCommentStyleForLanguage lang = Some st"
  shows "addDescriptionAsCommentForLanguage code description lang =
           join [NL]
             (map (\<lambda>line. cs_prefix st @ '' '' @ line
                           @ (case cs_suffix st of None \<Rightarrow> [] | Some sfx \<Rightarrow> '' '' @ sfx))
                (split_nl description))
           @ [NL] @ code"
proof -
  from assms(1) have d: "description \<noteq> []" by (auto simp: trim_Nil)
  from commentStyle_suffix[OF assms(2)] show ?thesis
    using assms d by (auto simp: addDescriptionAsCommentForLanguage_def Let_def)
qed

lemma addDescription_unchanged_iff:
  "(addDescriptionAsCommentForLanguage code description lang = code)
   = (trim description = [] \<or> getCommentStyleForLanguage lang = None)"
proof (cases "trim description = [] \<or> getCommentStyleForLanguage lang = None")
  case True
  then show ?thesis
    by (auto simp: addDescriptionAsCommentForLanguage_def trim_Nil)
next
  case False
  then obtain st where st: "getCommentStyleForLanguage lang = Some st"
    and t: "trim description \<noteq> []"
    by auto
  have "length (addDescriptionAsCommentForLanguage code description lang) > length code"
    unfolding addDescription_commented[OF t st] by simp
  then have "addDescriptionAsCommentForLanguage code description lang \<noteq> code" by auto
  with False show ?thesis by simp
qed

text \<open>
  Claim C5: comment injection returns the code unchanged if and only if the description
  is empty or whitespace-only or the language has no comment style; otherwise the result
  is the description lines, each one prefixed (and, for a style with a suffix, each one
  followed by the suffix), joined by newlines, then a newline and the code.
\<close>

theorem comment_injection:
  "((addDescriptionAsCommentForLanguage code description lang = code)
      = (trim description = [] \<or> getCommentStyleForLanguage lang = None))
   \<and> (\<forall>st. trim description \<noteq> [] \<and> getCommentStyleForLanguage lang = Some st \<longrightarrow>
         addDescriptionAsCommentForLanguage code description lang =
           join [NL]
             (map (\<lambda>line. cs_prefix st @ '' '' @ line
                           @ (case cs_suffix st of None \<Rightarrow> [] | Some sfx \<Rightarrow> '' '' @ sfx))
                (split_nl description))
           @ [NL] @ code)"
proof (intro conjI allI impI)
  show "(addDescriptionAsCommentForLanguage code description lang = code)
          = (trim description = [] \<or> getCommentStyleForLanguage lang = None)"
    by (rule addDescription_unchanged_iff)
next
  fix st
  assume "trim description \<noteq> [] \<and> getCommentStyleForLanguage lang = Some st"
  then show "addDescriptionAsCommentForLanguage code description lang =
           join [NL]
             (map (\<lambda>line. cs_prefix st @ '' '' @ line
                           @ (case cs_suffix st of None \<Rightarrow> [] | Some sfx \<Rightarrow> '' '' @ sfx))
                (split_nl description))
           @ [NL] @ code"
    using addDescription_commented by blast
qed

text \<open>
  Witness for C5: a two-line description on HTML code (a style with a suffix), and a
  blank description.
\<close>

theorem comment_injection_witness:
  "addDescriptionAsCommentForLanguage ''<a/>'' twoLineDescription ''HTML''
     = ''<!-- Line 1 -->'' @ [NL] @ ''<!-- Line 2 -->'' @ [NL] @ ''<a/>''
   \<and> addDescriptionAsCommentForLanguage ''<a/>'' ''   '' ''HTML'' = ''<a/>''"
proof -
  have t: "trim twoLineDescription \<noteq> []" by code_simp
  have b: "trim ''   '' = []" by code_simp
  have g: "getCommentStyleForLanguage ''HTML''
             = Some \<lparr>cs_prefix = ''<!--'', cs_suffix = Some ''-->''\<rparr>"
    by code_simp
  have s: "split_nl twoLineDescription = [''Line 1'', ''Line 2'']"
    by code_simp
  show ?thesis
    using comment_injection [of "''<a/>''" twoLineDescription "''HTML''"]
      comment_injection [of "''<a/>''" "''   ''" "''HTML''"]
    by (simp add: t b g s)
qed

section \<open>Conversion of a practice to a rule\<close>

lemma processUnitTests_eq:
  "processUnitTests lang tests (pos, neg) =
     (pos @ map (\<lambda>t. convertUnitTestToExample t lang) (filter ut_isCompliant tests),
      neg @ map (\<lambda>t. convertUnitTestToExample t lang) (filter (\<lambda>t. \<not> ut_isCompliant t) tests))"
  by (induction tests arbitrary: pos neg) (auto simp: Let_def)

lemma convertFile_hasContents:
  "hasContents ex \<Longrightarrow> \<exists>v. convertFileWorkshopExample ctx ex = Inr v"
  by (auto simp: hasContents_def convertFileWorkshopExample_def extractCodeWithContext_def
      Let_def split: option.splits)

lemma processFileExamples_eq:
  "\<exists>fpos fneg.
     processFileExamples ctx examples (pos, neg) = Inr (pos @ fpos, neg @ fneg)
     \<and> map Inr fpos = map (convertFileWorkshopExample ctx)
                        (filter (\<lambda>ex. hasContents ex \<and> ex_isPositive ex) examples)
     \<and> map Inr fneg = map (convertFileWorkshopExample ctx)
                        (filter (\<lambda>ex. hasContents ex \<and> \<not> ex_isPositive ex) examples)"
proof (induction examples arbitrary: pos neg)
  case Nil
  then show ?case by simp
next
  case (Cons ex examples)
  show ?case
  proof (cases "hasContents ex")
    case False
    then show ?thesis using Cons.IH[of pos neg] by simp
  next
    case True
    then obtain v where v: "convertFileWorkshopExample ctx ex = Inr v"
      using convertFile_hasContents by blast
    show ?thesis
    proof (cases "ex_isPositive ex")
      case True
      from Cons.IH[of "pos @ [v]" neg] obtain fpos fneg where
        "processFileExamples ctx examples (pos @ [v], neg) = Inr ((pos @ [v]) @ fpos, neg @ fneg)"
        "map Inr fpos = map (convertFileWorkshopExample ctx)
                        (filter (\<lambda>ex. hasContents ex \<and> ex_isPositive ex) examples)"
        "map Inr fneg = map (convertFileWorkshopExample ctx)
                        (filter (\<lambda>ex. hasContents ex \<and> \<not> ex_isPositive ex) examples)"
        by blast
      then show ?thesis using True \<open>hasContents ex\<close> v
        by (intro exI[of _ "v # fpos"] exI[of _ fneg]) simp
    next
      case False
      from Cons.IH[of pos "neg @ [v]"] obtain fpos fneg where
        "processFileExamples ctx examples (pos, neg @ [v]) = Inr (pos @ fpos, (neg @ [v]) @ fneg)"
        "map Inr fpos = map (convertFileWorkshopExample ctx)
                        (filter (\<lambda>ex. hasContents ex \<and> ex_isPositive ex) examples)"
        "map Inr fneg = map (convertFileWorkshopExample ctx)
                        (filter (\<lambda>ex. hasContents ex \<and> \<not> ex_isPositive ex) examples)"
        by blast
      then show ?thesis using False \<open>hasContents ex\<close> v
        by (intro exI[of _ fpos] exI[of _ "v # fneg"]) simp
    qed
  qed
qed

lemma shouldIncludeDetection_eligible: "shouldIncludeDetection practice = eligible practice"
  by (auto simp: shouldIncludeDetection_def eligible_def split: option.splits)

lemma convertPracticeToRule_total:
  "\<exists>positiveExamples negativeExamples.
     convertPracticeToRule ctx practice =
       Inr \<lparr>vr_name = pp_name practice,
            vr_positiveExamples = positiveExamples,
            vr_negativeExamples = negativeExamples,
            vr_detectionProgram = buildDetectionProgram practice (eligible practice)\<rparr>"
proof -
  obtain a b where ab:
    "(case pp_detectionUnitTests practice of
        Some tests \<Rightarrow>
          if shouldIncludeDetection practice
          then processUnitTests (inferLanguage practice) tests ([], [])
          else ([], [])
      | None \<Rightarrow> ([], [])) = (a, b)"
    by (cases "(case pp_detectionUnitTests practice of
        Some tests \<Rightarrow>
          if shouldIncludeDetection practice
          then processUnitTests (inferLanguage practice) tests ([], [])
          else ([], [])
      | None \<Rightarrow> ([], []))") auto
  obtain fpos fneg where
    "processFileExamples ctx (pp_examples practice) (a, b) = Inr (a @ fpos, b @ fneg)"
    using processFileExamples_eq[of ctx "pp_examples practice" a b] by blast
  then show ?thesis
    unfolding convertPracticeToRule_def Let_def ab
    by (simp add: shouldIncludeDetection_eligible)
qed

text \<open>
  Claim C3, as stated, fails: a practice whose suggestions flag is unset and whose
  tooling has status SUCCESS, but an empty program text, converts to a rule with no
  detection program.
\<close>

theorem detection_presence_counterexample:
  "pp_suggestionsDisabled practiceEmptyProgram = None
   \<and> map_option tl_status (pp_toolings practiceEmptyProgram) = Some ''SUCCESS''
   \<and> convertPracticeToRule 2 practiceEmptyProgram =
       Inr \<lparr>vr_name = ''Test Practice'', vr_positiveExamples = [], vr_negativeExamples = [],
            vr_detectionProgram = None\<rparr>"
  by (simp add: practiceEmptyProgram_def sampleToolings_def convertPracticeToRule_def
      shouldIncludeDetection_def buildDetectionProgram_def inferLanguage_def
      exampleLanguages_def List.map_filter_simps)

text \<open>
  Claim C3, amended: the conversion of a practice always returns a rule. Its examples are
  the converted unit tests, present exactly when the practice is eligible (suggestions
  not disabled, tooling present, status SUCCESS), followed by the converted file examples
  that have contents, present whatever the eligibility is. The rule has a detection
  program exactly when the practice is eligible and the tooling's program text is not
  empty.
\<close>

theorem detection_inclusion_policy:
  "\<exists>rule fpos fneg.
     convertPracticeToRule ctx practice = Inr rule
     \<and> vr_name rule = pp_name practice
     \<and> vr_positiveExamples rule =
         (if eligible practice
          then map (\<lambda>t. convertUnitTestToExample t (inferLanguage practice))
                 (filter ut_isCompliant (unitTestsOf practice))
          else []) @ fpos
     \<and> vr_negativeExamples rule =
         (if eligible practice
          then map (\<lambda>t. convertUnitTestToExample t (inferLanguage practice))
                 (filter (\<lambda>t. \<not> ut_isCompliant t) (unitTestsOf practice))
          else []) @ fneg
     \<and> map Inr fpos = map (convertFileWorkshopExample ctx)
                        (filter (\<lambda>ex. hasContents ex \<and> ex_isPositive ex) (pp_examples practice))
     \<and> map Inr fneg = map (convertFileWorkshopExample ctx)
                        (filter (\<lambda>ex. hasContents ex \<and> \<not> ex_isPositive ex)
                           (pp_examples practice))
     \<and> ((vr_detectionProgram rule \<noteq> None)
          = (eligible practice
             \<and> (case pp_toolings practice of
                   None \<Rightarrow> False
                 | Some toolings \<Rightarrow> tl_program toolings \<noteq> [])))"
proof -
  define fromTests where "fromTests =
     (if eligible practice
      then map (\<lambda>t. convertUnitTestToExample t (inferLanguage practice))
             (filter ut_isCompliant (unitTestsOf practice))
      else [],
      if eligible practice
      then map (\<lambda>t. convertUnitTestToExample t (inferLanguage practice))
             (filter (\<lambda>t. \<not> ut_isCompliant t) (unitTestsOf practice))
      else [])"
  have ft: "(case pp_detectionUnitTests practice of
               Some tests \<Rightarrow>
                 if shouldIncludeDetection practice
                 then processUnitTests (inferLanguage practice) tests ([], [])
                 else ([], [])
             | None \<Rightarrow> ([], [])) = fromTests"
    by (simp add: fromTests_def shouldIncludeDetection_eligible unitTestsOf_def
        processUnitTests_eq split: option.splits)
  obtain fpos fneg where f:
    "processFileExamples ctx (pp_examples practice) fromTests
       = Inr (fst fromTests @ fpos, snd fromTests @ fneg)"
    "map Inr fpos = map (convertFileWorkshopExample ctx)
                      (filter (\<lambda>ex. hasContents ex \<and> ex_isPositive ex) (pp_examples practice))"
    "map Inr fneg = map (convertFileWorkshopExample ctx)
                      (filter (\<lambda>ex. hasContents ex \<and> \<not> ex_isPositive ex)
                         (pp_examples practice))"
    using processFileExamples_eq[of ctx "pp_examples practice" "fst fromTests" "snd fromTests"]
    by auto
  have dp: "(buildDetectionProgram practice (shouldIncludeDetection practice) \<noteq> None)
         = (eligible practice
            \<and> (case pp_toolings practice of
                  None \<Rightarrow> False
                | Some toolings \<Rightarrow> tl_program toolings \<noteq> []))"
    by (auto simp: buildDetectionProgram_def shouldIncludeDetection_eligible
        split: option.splits)
  show ?thesis
    unfolding convertPracticeToRule_def Let_def ft
    using f dp by (simp add: fromTests_def)
qed

text \<open>
  Witness for C3: suggestions disabled, a tooling with status SUCCESS, two file examples
  (one positive, one negative) and three unit tests give one positive and one negative
  example and no detection program.
\<close>

theorem detection_inclusion_policy_witness:
  "\<exists>rule. convertPracticeToRule 2 practiceSuggestionsDisabled = Inr rule
     \<and> length (vr_positiveExamples rule) = 1
     \<and> length (vr_negativeExamples rule) = 1
     \<and> vr_detectionProgram rule = None"
proof -
  have e: "\<not> eligible practiceSuggestionsDisabled"
    by (simp add: eligible_def practiceSuggestionsDisabled_def)
  have p: "filter (\<lambda>ex. hasContents ex \<and> ex_isPositive ex)
             (pp_examples practiceSuggestionsDisabled) = [fileExample ''kt'' True]"
    by (simp add: practiceSuggestionsDisabled_def fileExample_def hasContents_def)
  have n: "filter (\<lambda>ex. hasContents ex \<and> \<not> ex_isPositive ex)
             (pp_examples practiceSuggestionsDisabled) = [fileExample ''kt'' False]"
    by (simp add: practiceSuggestionsDisabled_def fileExample_def hasContents_def)
  from detection_inclusion_policy [of 2 practiceSuggestionsDisabled]
  obtain rule fpos fneg where r:
    "convertPracticeToRule 2 practiceSuggestionsDisabled = Inr rule"
    "vr_positiveExamples rule = fpos" "vr_negativeExamples rule = fneg"
    "map Inr fpos = map (convertFileWorkshopExample 2) [fileExample ''kt'' True]"
    "map Inr fneg = map (convertFileWorkshopExample 2) [fileExample ''kt'' False]"
    "vr_detectionProgram rule = None"
    unfolding p n using e by auto
  from r(4) have "length fpos = 1" by (auto dest: map_eq_imp_length_eq)
  moreover from r(5) have "length fneg = 1" by (auto dest: map_eq_imp_length_eq)
  ultimately show ?thesis using r by auto
qed

section \<open>The language of the detection program\<close>

lemma toLowerCase_Nil_iff: "(toLowerCase s = []) = (s = [])"
  by (simp add: toLowerCase_def)

lemma map_filter_lower:
  "filter (\<lambda>lang. lang \<noteq> []) (List.map_filter (\<lambda>ex. map_option toLowerCase (f ex)) xs)
   = map toLowerCase (filter (\<lambda>lang. lang \<noteq> []) (List.map_filter f xs))"
  by (induction xs) (auto simp: List.map_filter_simps toLowerCase_Nil_iff split: option.splits)

lemma areAllExamplesAvro_iff:
  "areAllExamplesAvro practice
   = (exampleTags practice \<noteq> [] \<and> set (exampleTags practice) \<subseteq> set avroExtensions)"
  by (auto simp: areAllExamplesAvro_def exampleTags_def exampleLanguages_def map_filter_lower
      Let_def list_all_iff)

text \<open>
  Claim C9, as stated, fails: a practice with an eligible detection program and no file
  example at all (so that every file example's tag is in the Avro family) keeps the
  tooling's language, \<open>KOTLIN\<close>.
\<close>

theorem avro_override_counterexample:
  "pp_examples practiceNoExamples = []
   \<and> convertPracticeToRule 2 practiceNoExamples =
       Inr \<lparr>vr_name = ''Test Practice'', vr_positiveExamples = [], vr_negativeExamples = [],
            vr_detectionProgram =
              Some \<lparr>dp_code = ''function checkSourceCode(ast) { return []; }'',
                    dp_description = ''Checks source code for violations'',
                    dp_language = ''KOTLIN''\<rparr>\<rparr>"
  by (simp add: practiceNoExamples_def sampleToolings_def convertPracticeToRule_def
      shouldIncludeDetection_def buildDetectionProgram_def areAllExamplesAvro_def
      List.map_filter_simps inferLanguage_def exampleLanguages_def)

text \<open>
  Claim C9, amended: for every practice with an eligible detection program (eligible, and
  a program text that is not empty), the emitted program carries the tooling's code and
  description, and its language is \<open>AVRO\<close> if at least one file example has a non-empty
  language tag and every such tag, lower-cased, is one of \<open>avdl\<close>, \<open>avsc\<close>, \<open>avpr\<close>;
  otherwise it is the tooling's declared language, verbatim. File examples without a tag
  are not looked at.
\<close>

theorem detection_program_language:
  assumes "pp_toolings practice = Some toolings"
      and "eligible practice"
      and "tl_program toolings \<noteq> []"
  shows "\<exists>rule. convertPracticeToRule ctx practice = Inr rule
           \<and> vr_detectionProgram rule =
               Some \<lparr>dp_code = tl_program toolings,
                     dp_description = tl_programDescription toolings,
                     dp_language =
                       (if exampleTags practice \<noteq> []
                           \<and> set (exampleTags practice) \<subseteq> set avroExtensions
                        then AVRO else tl_language toolings)\<rparr>"
proof -
  have b: "buildDetectionProgram practice (eligible practice) =
          Some \<lparr>dp_code = tl_program toolings,
                dp_description = tl_programDescription toolings,
                dp_language =
                  (if exampleTags practice \<noteq> []
                      \<and> set (exampleTags practice) \<subseteq> set avroExtensions
                   then AVRO else tl_language toolings)\<rparr>"
    using assms by (simp add: buildDetectionProgram_def areAllExamplesAvro_iff)
  obtain positiveExamples negativeExamples where c:
    "convertPracticeToRule ctx practice =
       Inr \<lparr>vr_name = pp_name practice,
            vr_positiveExamples = positiveExamples,
            vr_negativeExamples = negativeExamples,
            vr_detectionProgram = buildDetectionProgram practice (eligible practice)\<rparr>"
    using convertPracticeToRule_total[of ctx practice] by blast
  show ?thesis unfolding c b by simp
qed

text \<open>
  Witness for C9: two file examples tagged \<open>AVSC\<close> and \<open>avdl\<close>, a tooling that declares
  \<open>KOTLIN\<close>; the program's language is \<open>AVRO\<close>.
\<close>

theorem detection_program_language_witness:
  "\<exists>rule. convertPracticeToRule 2 practiceAvro = Inr rule
     \<and> map_option dp_language (vr_detectionProgram rule) = Some AVRO"
proof -
  have t: "pp_toolings practiceAvro = Some sampleToolings"
    by (simp add: practiceAvro_def)
  have e: "eligible practiceAvro"
    by (simp add: eligible_def practiceAvro_def sampleToolings_def)
  have p: "tl_program sampleToolings \<noteq> []"
    by (simp add: sampleToolings_def)
  have g: "exampleTags practiceAvro = [''avsc'', ''avdl'']"
    by code_simp
  show ?thesis
    using detection_program_language [OF t e p, of 2]
    by (auto simp: g avroExtensions_def)
qed

section \<open>Parsing a practice with toolings\<close>

lemma checkToolingsLanguage_None_iff: "(checkToolingsLanguage t = None) = languageResolves t"
  by (auto simp: checkToolingsLanguage_def languageResolves_def Let_def
      stringToProgrammingLanguage_def trim_def split: jsval.splits sum.splits)

lemma checkToolingsLanguage_Some:
  "checkToolingsLanguage t = Some e
   \<Longrightarrow> e = MissingToolingsLanguage \<or> e = InvalidToolingsLanguage"
  by (auto simp: checkToolingsLanguage_def Let_def split: jsval.splits sum.splits if_splits)

lemma languageResolves_iff:
  "languageResolves t
   = (\<exists>input. getProp t ''language'' = JStr input
                \<and> trim input \<noteq> [] \<and> recognisedLanguage (trim input))"
proof (cases "getProp t ''language''")
  case (JStr input)
  show ?thesis
  proof (cases "trim input \<noteq> [] \<and> recognisedLanguage (trim input)")
    case True
    then obtain l where "stringToProgrammingLanguage input = Inr l"
      using stringToProgrammingLanguage_known by blast
    then show ?thesis using True JStr by (simp add: languageResolves_def)
  next
    case False
    then have "\<exists>e. stringToProgrammingLanguage input = Inl e"
      using stringToProgrammingLanguage_empty stringToProgrammingLanguage_unknown by blast
    then show ?thesis using False JStr by (auto simp: languageResolves_def)
  qed
qed (simp_all add: languageResolves_def)

text \<open>
  Claim C10: for a parsed JSON record whose \<open>toolings\<close> is an object, \<open>parsePractice\<close>
  raises whenever \<open>toolings.language\<close> is absent or does not resolve to a language (it
  resolves when it is a string that, trimmed, is not empty and matches an alias, an enum
  value, a display name or a file extension case-insensitively), and
  it returns a practice only when \<open>toolings.language\<close> resolves; it returns one exactly
  when moreover the five required properties are present, and when they are present the
  error on an absent or unresolved language is one of the two toolings-language errors.
\<close>

theorem parsePractice_toolings_language:
  assumes "getProp parsed ''toolings'' = JObj ts"
  shows "(languageResolves (JObj ts)
          = (\<exists>input. getProp (JObj ts) ''language'' = JStr input
                       \<and> trim input \<noteq> [] \<and> recognisedLanguage (trim input)))
       \<and> (\<not> languageResolves (JObj ts) \<longrightarrow> (\<exists>e. parsePractice (Some parsed) = Inl e))
       \<and> (\<forall>r. parsePractice (Some parsed) = Inr r \<longrightarrow>
              languageResolves (JObj ts) \<and> pj_toolings r = JObj ts)
       \<and> ((\<exists>r. parsePractice (Some parsed) = Inr r)
            = (requiredPresent parsed \<and> languageResolves (JObj ts)))
       \<and> (requiredPresent parsed \<and> \<not> languageResolves (JObj ts) \<longrightarrow>
            parsePractice (Some parsed) = Inl MissingToolingsLanguage
            \<or> parsePractice (Some parsed) = Inl InvalidToolingsLanguage)"
proof -
  have nn: "\<not> nullish parsed" using assms by (cases parsed) auto
  have rest:
    "(\<not> languageResolves (JObj ts) \<longrightarrow> (\<exists>e. parsePractice (Some parsed) = Inl e))
       \<and> (\<forall>r. parsePractice (Some parsed) = Inr r \<longrightarrow>
              languageResolves (JObj ts) \<and> pj_toolings r = JObj ts)
       \<and> ((\<exists>r. parsePractice (Some parsed) = Inr r)
            = (requiredPresent parsed \<and> languageResolves (JObj ts)))
       \<and> (requiredPresent parsed \<and> \<not> languageResolves (JObj ts) \<longrightarrow>
            parsePractice (Some parsed) = Inl MissingToolingsLanguage
            \<or> parsePractice (Some parsed) = Inl InvalidToolingsLanguage)"
  proof (cases "checkToolingsLanguage (JObj ts)")
    case None
    then have "languageResolves (JObj ts)" by (simp add: checkToolingsLanguage_None_iff)
    then show ?thesis using None nn assms
      by (auto simp: parsePractice_def requiredPresent_def Let_def)
  next
    case (Some e)
    then have "\<not> languageResolves (JObj ts)"
      using checkToolingsLanguage_None_iff[of "JObj ts"] by simp
    then show ?thesis using Some nn assms checkToolingsLanguage_Some[OF Some]
      by (auto simp: parsePractice_def requiredPresent_def Let_def)
  qed
  show ?thesis using languageResolves_iff[of "JObj ts"] rest by blast
qed

text \<open>
  Witness for C10: the same record with \<open>toolings.language\<close> \<open>klingon\<close> (rejected),
  absent (rejected) and \<open>Kotlin\<close> (parsed).
\<close>

theorem parsePractice_toolings_language_witness:
  "(\<exists>e. parsePractice (Some (parsedWithToolings (JStr ''klingon''))) = Inl e)
   \<and> (\<exists>e. parsePractice (Some (parsedWithToolings JUndefined)) = Inl e)
   \<and> (\<exists>r. parsePractice (Some (parsedWithToolings (JStr ''Kotlin''))) = Inr r)"
proof -
  have g: "getProp (parsedWithToolings l) ''toolings''
             = JObj [(''status'', JStr ''SUCCESS''), (''language'', l)]" for l
    by (simp add: parsedWithToolings_def)
  have q: "requiredPresent (parsedWithToolings l)" for l
    by (simp add: parsedWithToolings_def requiredPresent_def)
  have 1: "\<not> languageResolves (JObj [(''status'', JStr ''SUCCESS''), (''language'', JStr ''klingon'')])"
    by code_simp
  have 2: "\<not> languageResolves (JObj [(''status'', JStr ''SUCCESS''), (''language'', JUndefined)])"
    by code_simp
  have 3: "languageResolves (JObj [(''status'', JStr ''SUCCESS''), (''language'', JStr ''Kotlin'')])"
    by code_simp
  show ?thesis
    using parsePractice_toolings_language [OF g [of "JStr ''klingon''"]]
      parsePractice_toolings_language [OF g [of JUndefined]]
      parsePractice_toolings_language [OF g [of "JStr ''Kotlin''"]]
      q 1 2 3
    by blast
qed

section \<open>Context extraction\<close>

lemma insort_cmp_key: "insort_cmp (\<lambda>a b. f a - f b) x ys = insort_key f x ys"
  for f :: "'a \<Rightarrow> int"
  by (induction ys) auto

lemma js_sort_key: "js_sort (\<lambda>a b. f a - f b) xs = sort_key f xs"
  for f :: "'a \<Rightarrow> int"
  by (induction xs) (auto simp: js_sort_def insort_cmp_key)

lemma extract_formula:
  assumes "contents \<noteq> []"
  shows "extractCodeWithContext padding (snapshotOf contents beginLine endLine) =
     Inr (join [NL] (map fc_content (sort_key fc_line
            (linesBetween contents
               (max (Min (set (map fc_line contents))) (beginLine - padding))
               (min (Max (set (map fc_line contents))) (endLine + padding))))))"
  using assms
  by (simp add: extractCodeWithContext_def snapshotOf_def Let_def getLineRange_def js_sort_key
      linesBetween_def)

lemma filter_key_distinct:
  "distinct (map f ys) \<Longrightarrow> k \<in> set ys \<Longrightarrow> filter (\<lambda>x. f k = f x) ys = [k]"
proof (induction ys)
  case Nil
  then show ?case by simp
next
  case (Cons y ys)
  show ?case
  proof (cases "k = y")
    case True
    have "filter (\<lambda>x. f y = f x) ys = []"
      using Cons.prems(1) by (auto simp: filter_empty_conv)
    then show ?thesis using True by simp
  next
    case False
    then have "k \<in> set ys" using Cons.prems by simp
    moreover have "f y \<notin> f ` set ys" using Cons.prems(1) by simp
    then have "f k \<noteq> f y" using \<open>k \<in> set ys\<close> by (auto simp: image_iff)
    ultimately show ?thesis using Cons by simp
  qed
qed

lemma sort_key_perm_distinct:
  assumes "mset xs = mset ys" "distinct (map f xs)"
  shows "sort_key f xs = sort_key f ys"
proof (rule properties_for_sort_key)
  show "mset (sort_key f ys) = mset xs" using assms by simp
  show "sorted (map f (sort_key f ys))" by simp
  fix k assume "k \<in> set (sort_key f ys)"
  then have k: "k \<in> set ys" by simp
  have sx: "set xs = set ys" using assms(1) by (rule mset_eq_setD)
  have "mset (map f xs) = mset (map f ys)" using assms(1) by simp
  then have dy: "distinct (map f ys)"
    using assms(2) mset_eq_imp_distinct_iff by blast
  have "filter (\<lambda>x. f k = f x) (sort_key f ys) = filter (\<lambda>x. f k = f x) ys"
    using sort_key_stable[of f "f k" ys] by (simp add: eq_commute)
  also have "\<dots> = [k]" using filter_key_distinct[OF dy k] by simp
  also have "\<dots> = filter (\<lambda>x. f k = f x) xs"
    using filter_key_distinct[OF assms(2)] k sx by auto
  finally show "filter (\<lambda>x. f k = f x) (sort_key f ys) = filter (\<lambda>x. f k = f x) xs" .
qed

lemma linesBetween_mset:
  "mset xs = mset ys \<Longrightarrow> mset (linesBetween xs lo hi) = mset (linesBetween ys lo hi)"
  by (simp add: linesBetween_def)

lemma linesBetween_distinct:
  "distinct (map fc_line xs) \<Longrightarrow> distinct (map fc_line (linesBetween xs lo hi))"
  by (simp add: linesBetween_def distinct_map_filter)

lemma extract_perm:
  assumes "mset contents' = mset contents" "distinct (map fc_line contents)"
  shows "extractCodeWithContext padding (snapshotOf contents' beginLine endLine)
       = extractCodeWithContext padding (snapshotOf contents beginLine endLine)"
proof (cases "contents = []")
  case True
  then show ?thesis using assms by simp
next
  case False
  then have ne: "contents' \<noteq> []" using assms(1) by auto
  have "set contents' = set contents" using assms(1) by (rule mset_eq_setD)
  then have s: "set (map fc_line contents') = set (map fc_line contents)" by simp
  have "sort_key fc_line (linesBetween contents lo hi)
        = sort_key fc_line (linesBetween contents' lo hi)" for lo hi
  proof (rule sort_key_perm_distinct)
    show "mset (linesBetween contents lo hi) = mset (linesBetween contents' lo hi)"
      by (rule linesBetween_mset) (simp add: assms(1))
    show "distinct (map fc_line (linesBetween contents lo hi))"
      by (rule linesBetween_distinct) (rule assms(2))
  qed
  then show ?thesis
    unfolding extract_formula[OF False] extract_formula[OF ne] s by simp
qed

text \<open>
  Claim C4, as stated, fails: two snapshots that are the same bag of (line, content)
  pairs, stored in different orders, give different extracts when two entries share a
  line number.
\<close>

theorem extract_storage_order_counterexample:
  "mset sameLineA = mset sameLineB
   \<and> extractCodeWithContext 2 (snapshotOf sameLineA 1 1) = Inr (''a'' @ [NL] @ ''b'')
   \<and> extractCodeWithContext 2 (snapshotOf sameLineB 1 1) = Inr (''b'' @ [NL] @ ''a'')"
  by (simp add: sameLineA_def sameLineB_def extractCodeWithContext_def snapshotOf_def
      getLineRange_def js_sort_def Let_def)

text \<open>
  Claim C4, amended: for a non-empty snapshot with smallest line \<open>minLine\<close> and largest
  line \<open>maxLine\<close>, context extraction returns the contents of exactly the entries whose
  line lies in \<open>[max minLine (beginLine - padding), min maxLine (endLine + padding)]\<close>,
  in ascending order of line number (entries that share a line number staying in
  storage order), joined with newline. When no two entries share a line number the
  result does not depend on the storage order.
\<close>

theorem context_extraction:
  assumes "contents \<noteq> []"
  shows
    "let lo = max (Min (set (map fc_line contents))) (beginLine - padding);
         hi = min (Max (set (map fc_line contents))) (endLine + padding);
         selected = sort_key fc_line (linesBetween contents lo hi)
     in extractCodeWithContext padding (snapshotOf contents beginLine endLine)
          = Inr (join [NL] (map fc_content selected))
        \<and> sorted (map fc_line selected)
        \<and> mset selected = filter_mset (\<lambda>c. lo \<le> fc_line c \<and> fc_line c \<le> hi) (mset contents)
        \<and> (\<forall>k. filter (\<lambda>c. fc_line c = k) selected
                 = filter (\<lambda>c. fc_line c = k) (linesBetween contents lo hi))
        \<and> (distinct (map fc_line contents) \<longrightarrow>
             (\<forall>contents'. mset contents' = mset contents \<longrightarrow>
                extractCodeWithContext padding (snapshotOf contents' beginLine endLine)
                = extractCodeWithContext padding (snapshotOf contents beginLine endLine)))"
  using extract_formula[OF assms] extract_perm
  by (simp add: Let_def linesBetween_def sort_key_stable)

text \<open>
  Witness for C4: five lines stored out of order, the range 3 to 3 and padding 1, for the
  stored order and for its reverse.
\<close>

theorem context_extraction_witness:
  "extractCodeWithContext 1 (snapshotOf fiveLines 3 3)
     = Inr (''line 2'' @ [NL] @ ''line 3'' @ [NL] @ ''line 4'')
   \<and> extractCodeWithContext 1 (snapshotOf (rev fiveLines) 3 3)
     = Inr (''line 2'' @ [NL] @ ''line 3'' @ [NL] @ ''line 4'')"
proof -
  have ne: "fiveLines \<noteq> []" by (simp add: fiveLines_def)
  have d: "distinct (map fc_line fiveLines)" by (simp add: fiveLines_def)
  have m: "mset (rev fiveLines) = mset fiveLines" by simp
  have e: "join [NL] (map fc_content (sort_key fc_line
             (linesBetween fiveLines
                (max (Min (set (map fc_line fiveLines))) (3 - 1))
                (min (Max (set (map fc_line fiveLines))) (3 + 1)))))
           = ''line 2'' @ [NL] @ ''line 3'' @ [NL] @ ''line 4''"
    by code_simp
  from context_extraction [OF ne, of 3 1 3] have
    1: "extractCodeWithContext 1 (snapshotOf fiveLines 3 3)
          = Inr (join [NL] (map fc_content (sort_key fc_line
             (linesBetween fiveLines
                (max (Min (set (map fc_line fiveLines))) (3 - 1))
                (min (Max (set (map fc_line fiveLines))) (3 + 1))))))"
    and 2: "distinct (map fc_line fiveLines) \<longrightarrow>
             (\<forall>contents'. mset contents' = mset fiveLines \<longrightarrow>
                extractCodeWithContext 1 (snapshotOf contents' 3 3)
                = extractCodeWithContext 1 (snapshotOf fiveLines 3 3))"
    unfolding Let_def by blast+
  from 2 d m have "extractCodeWithContext 1 (snapshotOf (rev fiveLines) 3 3)
                = extractCodeWithContext 1 (snapshotOf fiveLines 3 3)"
    by blast
  then show ?thesis using 1 unfolding e by simp
qed

section \<open>The description of a standard\<close>

text \<open>
  Claim C6 on the input of the repository's own test: the heading the code writes is
  \<open>## \<close> and the rule's name, with no ordinal; the test expects \<open>## rule 1: Rule A\<close>
  and \<open>## rule 2: Rule B\<close>. The indentation by three spaces and the blank line between
  members are as claimed.
\<close>

theorem buildStandardDescription_no_ordinal:
  "buildStandardDescription [ruleNamed ''Rule A'', ruleNamed ''Rule B'']
     [practiceNamed ''Rule A'' ''Description A'', practiceNamed ''Rule B'' ''Description B'']
   = ''## Rule A'' @ [NL] @ ''   Description A'' @ [NL, NL]
     @ ''## Rule B'' @ [NL] @ ''   Description B''"
  by (simp add: buildStandardDescription_def ruleNamed_def practiceNamed_def NL_def)

section \<open>Merging a retry response\<close>

text \<open>
  Claim C8 on a retry response that parses as YAML and has a \<open>standards\<close> list, but
  whose one standard has no name: the merge does not return the existing mapping, it
  raises a TypeError, and so does the post-processing loop that called it.
\<close>

theorem mergeRetryResults_malformed_raises:
  "mergeRetryResults existingTwo (Some retryNoName) = Inl TypeError
   \<and> postProcessMapping zeroRandom repliesNoName existingTwo
       (extractOriginalPracticeNames sevenNames) = Inl TypeError"
  by code_simp

section \<open>Removing duplicates: the sorted removal\<close>

lemma insort_cmp_removal: "insort_cmp compareRemoval x ys = insort_key removalKey x ys"
  by (induction ys) (auto simp: compareRemoval_def removalKey_def less_eq_prod_def)

lemma js_sort_removal: "js_sort compareRemoval xs = sort_key removalKey xs"
  by (induction xs) (auto simp: js_sort_def insort_cmp_removal)

lemma inj_removalKey: "inj removalKey"
  by (auto simp: inj_on_def removalKey_def prod_eq_iff)

lemma sorted_removal:
  assumes "distinct xs"
  shows "sorted_wrt (\<lambda>a b. removalKey a < removalKey b) (js_sort compareRemoval xs)"
proof -
  let ?rs = "sort_key removalKey xs"
  have "sorted (map removalKey ?rs)" by simp
  moreover have "inj_on removalKey (set xs)"
    using inj_removalKey by (rule inj_on_subset) simp
  then have "distinct (map removalKey ?rs)"
    using assms by (simp add: distinct_map)
  ultimately have "sorted_wrt (<) (map removalKey ?rs)"
    by (simp add: strict_sorted_iff)
  then show ?thesis by (simp add: js_sort_removal sorted_wrt_map)
qed

lemma splice1_Cons_0: "splice1 0 (x # xs) = xs"
  by (simp add: splice1_def)

lemma splice1_Cons_Suc: "splice1 (Suc i) (x # xs) = x # splice1 i xs"
  by (simp add: splice1_def)

lemma splice1_Nil: "splice1 i [] = []"
  by (simp add: splice1_def)

lemma splice1_filter_enumerate:
  assumes "\<forall>j. n \<le> j \<and> j \<le> n + i \<longrightarrow> P j"
  shows "splice1 i (map snd (filter (\<lambda>(j, x). P j) (enumerate n xs)))
         = map snd (filter (\<lambda>(j, x). j \<noteq> n + i \<and> P j) (enumerate n xs))"
  using assms
proof (induction xs arbitrary: n i)
  case Nil
  then show ?case by (simp add: splice1_Nil)
next
  case (Cons x xs)
  have Pn: "P n" using Cons.prems by simp
  show ?case
  proof (cases i)
    case 0
    have "filter (\<lambda>(j, x). j \<noteq> n \<and> P j) (enumerate (Suc n) xs)
          = filter (\<lambda>(j, x). P j) (enumerate (Suc n) xs)"
      by (rule filter_cong) (auto simp: in_set_enumerate_eq)
    then show ?thesis using Pn 0 by (simp add: splice1_Cons_0)
  next
    case (Suc i')
    have "\<forall>j. Suc n \<le> j \<and> j \<le> Suc n + i' \<longrightarrow> P j" using Cons.prems Suc by simp
    from Cons.IH[OF this] show ?thesis using Pn Suc by (simp add: splice1_Cons_Suc)
  qed
qed

lemma splice1_keepOutside:
  assumes "\<forall>j. (c, j) \<in> D \<longrightarrow> i < j"
  shows "splice1 i (keepOutside D c ps) = keepOutside (insert (c, i) D) c ps"
proof -
  have "\<forall>j. 0 \<le> j \<and> j \<le> 0 + i \<longrightarrow> (c, j) \<notin> D" using assms by auto
  from splice1_filter_enumerate[of 0 i "\<lambda>j. (c, j) \<notin> D", OF this]
  show ?thesis by (simp add: keepOutside_def)
qed

lemma length_withoutIndices [simp]: "length (withoutIndices R stds) = length stds"
  by (simp add: withoutIndices_def)

lemma nth_withoutIndices:
  "c < length stds \<Longrightarrow>
   withoutIndices R stds ! c = (stds ! c)\<lparr>std_practices := keepOutside R c (std_practices (stds ! c))\<rparr>"
  by (simp add: withoutIndices_def nth_enumerate_eq)

lemma keepOutside_other:
  "c' \<noteq> c \<Longrightarrow> keepOutside (insert (c, i) D) c' ps = keepOutside D c' ps"
  by (simp add: keepOutside_def)

lemma removePractice_withoutIndices:
  assumes "\<forall>d\<in>D. removalKey d < removalKey (c, i)"
  shows "removePractice (withoutIndices D stds) (c, i) = withoutIndices (insert (c, i) D) stds"
proof (cases "c < length stds")
  case True
  have gt: "\<forall>j. (c, j) \<in> D \<longrightarrow> i < j"
    using assms by (auto simp: removalKey_def less_prod_def)
  show ?thesis
  proof (rule nth_equalityI)
    show "length (removePractice (withoutIndices D stds) (c, i))
          = length (withoutIndices (insert (c, i) D) stds)"
      using \<open>c < length stds\<close> by (simp add: removePractice_def)
  next
    fix k assume "k < length (removePractice (withoutIndices D stds) (c, i))"
    then have k: "k < length stds" using \<open>c < length stds\<close> by (simp add: removePractice_def)
    show "removePractice (withoutIndices D stds) (c, i) ! k
          = withoutIndices (insert (c, i) D) stds ! k"
    proof (cases "k = c")
      case True
      then show ?thesis
        using k splice1_keepOutside[OF gt]
        by (simp add: removePractice_def nth_withoutIndices)
    next
      case False
      then show ?thesis
        using k \<open>c < length stds\<close>
        by (simp add: removePractice_def nth_withoutIndices keepOutside_other)
    qed
  qed
next
  case False
  have "withoutIndices (insert (c, i) D) stds = withoutIndices D stds"
  proof (rule nth_equalityI)
    show "length (withoutIndices (insert (c, i) D) stds) = length (withoutIndices D stds)" by simp
  next
    fix k assume "k < length (withoutIndices (insert (c, i) D) stds)"
    then have k: "k < length stds" by simp
    then have "k \<noteq> c" using False by auto
    then show "withoutIndices (insert (c, i) D) stds ! k = withoutIndices D stds ! k"
      using k by (simp add: nth_withoutIndices keepOutside_other)
  qed
  then show ?thesis using False by (simp add: removePractice_def)
qed

lemma foldl_removePractice:
  assumes "sorted_wrt (\<lambda>a b. removalKey a < removalKey b) rs"
      and "\<forall>d\<in>D. \<forall>r\<in>set rs. removalKey d < removalKey r"
  shows "foldl removePractice (withoutIndices D stds) rs = withoutIndices (D \<union> set rs) stds"
  using assms
proof (induction rs arbitrary: D)
  case Nil
  then show ?case by simp
next
  case (Cons r rs)
  obtain c i where r: "r = (c, i)" by (cases r)
  have 1: "removePractice (withoutIndices D stds) r = withoutIndices (insert r D) stds"
    unfolding r by (rule removePractice_withoutIndices) (use Cons.prems(2) r in auto)
  have 2: "sorted_wrt (\<lambda>a b. removalKey a < removalKey b) rs" using Cons.prems(1) by simp
  have 3: "\<forall>d\<in>insert r D. \<forall>r'\<in>set rs. removalKey d < removalKey r'"
    using Cons.prems by auto
  show ?case using Cons.IH[OF 2 3] 1 by simp
qed

lemma keepOutside_empty: "keepOutside {} c ps = ps"
  by (simp add: keepOutside_def enumerate_eq_zip)

lemma withoutIndices_empty: "withoutIndices {} stds = stds"
  by (rule nth_equalityI) (simp_all add: nth_withoutIndices keepOutside_empty)

lemma remove_sorted_indices:
  assumes "distinct marks"
  shows "foldl removePractice stds (js_sort compareRemoval marks) = withoutIndices (set marks) stds"
proof -
  have "foldl removePractice (withoutIndices {} stds) (js_sort compareRemoval marks)
        = withoutIndices ({} \<union> set (js_sort compareRemoval marks)) stds"
    by (rule foldl_removePractice) (simp_all add: sorted_removal[OF assms])
  then show ?thesis by (simp add: withoutIndices_empty js_sort_removal)
qed

section \<open>Removing duplicates: the recorded locations\<close>

lemma allLocations_from: "allLocations stds = locationsFrom 0 stds"
  by (simp add: allLocations_def locationsFrom_def)

lemma categoryLocations_index:
  "l \<in> set (categoryLocations c cat) \<Longrightarrow> categoryIndex l = c"
  by (auto simp: categoryLocations_def)

lemma categoryLocations_nonempty:
  "l \<in> set (categoryLocations c cat) \<Longrightarrow> practiceName l \<noteq> []"
  by (auto simp: categoryLocations_def)

lemma categoryLocations_distinct: "distinct (map locPos (categoryLocations c cat))"
proof -
  have "map locPos (categoryLocations c cat)
        = map (Pair c) (map fst (filter (\<lambda>(i, p). p \<noteq> []) (enumerate 0 (std_practices cat))))"
    by (simp add: categoryLocations_def locPos_def comp_def case_prod_unfold)
  moreover have "distinct (map fst (filter (\<lambda>(i, p). p \<noteq> []) (enumerate 0 (std_practices cat))))"
    by (rule distinct_map_filter) simp
  ultimately show ?thesis by (simp add: distinct_map inj_on_def)
qed

lemma locationsFrom_index:
  "l \<in> set (locationsFrom n stds) \<Longrightarrow> n \<le> categoryIndex l"
proof (induction stds arbitrary: n)
  case Nil
  then show ?case by (simp add: locationsFrom_def)
next
  case (Cons cat stds)
  from Cons.prems have "l \<in> set (categoryLocations n cat) \<or> l \<in> set (locationsFrom (Suc n) stds)"
    by (simp add: locationsFrom_def)
  then show ?case using categoryLocations_index Cons.IH[of "Suc n"] by fastforce
qed

lemma locationsFrom_distinct: "distinct (map locPos (locationsFrom n stds))"
proof (induction stds arbitrary: n)
  case Nil
  then show ?case by (simp add: locationsFrom_def)
next
  case (Cons cat stds)
  have eq: "locationsFrom n (cat # stds) = categoryLocations n cat @ locationsFrom (Suc n) stds"
    by (simp add: locationsFrom_def)
  have "locPos a \<noteq> locPos b"
    if a: "a \<in> set (categoryLocations n cat)" and b: "b \<in> set (locationsFrom (Suc n) stds)"
    for a b
  proof -
    from a have "categoryIndex a = n" by (rule categoryLocations_index)
    moreover from b have "Suc n \<le> categoryIndex b" by (rule locationsFrom_index)
    ultimately show ?thesis by (auto simp: locPos_def)
  qed
  then have "locPos ` set (categoryLocations n cat) \<inter> locPos ` set (locationsFrom (Suc n) stds) = {}"
    by blast
  then show ?case
    unfolding eq using categoryLocations_distinct Cons.IH[of "Suc n"] by simp
qed

lemma locationsFrom_nonempty:
  "l \<in> set (locationsFrom n stds) \<Longrightarrow> practiceName l \<noteq> []"
  by (auto simp: locationsFrom_def dest: categoryLocations_nonempty)

lemma locsOf_push:
  "locsOf (pushLocation k l pl) k' = (if k' = k then locsOf pl k @ [l] else locsOf pl k')"
  by (induction pl) (auto simp: locsOf_def)



lemma mset_push:
  "mset (concat (map snd (pushLocation k l pl))) = add_mset l (mset (concat (map snd pl)))"
  by (induction pl) auto

lemma pushAll_Cons:
  "pushAll pl (l # L) = pushAll (pushLocation (locKey l) l pl) L"
  by (simp add: pushAll_def locKey_def)

lemma locsOf_pushAll:
  "locsOf (pushAll pl L) k = locsOf pl k @ filter (\<lambda>l. locKey l = k) L"
  by (induction L arbitrary: pl) (auto simp: pushAll_Cons locsOf_push, simp add: pushAll_def)


lemma mset_pushAll:
  "mset (concat (map snd (pushAll pl L))) = mset (concat (map snd pl)) + mset L"
  by (induction L arbitrary: pl) (auto simp: pushAll_Cons mset_push, simp add: pushAll_def)

lemma practiceLocations_pushAll: "practiceLocations stds = pushAll [] (allLocations stds)"
  by (simp add: practiceLocations_def pushAll_def)


lemma practiceLocations_key:
  assumes "l \<in> set (allLocations stds)"
  shows "(locKey l, filter (\<lambda>l'. locKey l' = locKey l) (allLocations stds))
           \<in> set (practiceLocations stds)"
proof -
  have "locsOf (practiceLocations stds) (locKey l)
        = filter (\<lambda>l'. locKey l' = locKey l) (allLocations stds)"
    unfolding practiceLocations_pushAll locsOf_pushAll by (simp add: locsOf_def)
  moreover have "filter (\<lambda>l'. locKey l' = locKey l) (allLocations stds) \<noteq> []"
    using assms by (auto simp: filter_empty_conv)
  ultimately obtain locs where "map_of (practiceLocations stds) (locKey l) = Some locs"
    "locs = filter (\<lambda>l'. locKey l' = locKey l) (allLocations stds)"
    by (auto simp: locsOf_def split: option.splits)
  then show ?thesis by (auto dest: map_of_SomeD)
qed

lemma practiceLocations_distinct_pos:
  "distinct (map locPos (concat (map snd (practiceLocations stds))))"
proof -
  have "mset (concat (map snd (practiceLocations stds))) = mset (allLocations stds)"
    unfolding practiceLocations_pushAll mset_pushAll by simp
  then have "mset (map locPos (concat (map snd (practiceLocations stds))))
             = mset (map locPos (allLocations stds))"
    by (metis mset_map)
  moreover have "distinct (map locPos (allLocations stds))"
    unfolding allLocations_from by (rule locationsFrom_distinct)
  ultimately show ?thesis using mset_eq_imp_distinct_iff by blast
qed

section \<open>Removing duplicates: the marked locations\<close>

lemma otherLocations_eq:
  "otherLocations keepIndex locs
   = map locPos (map snd (filter (\<lambda>(i, loc). i \<noteq> keepIndex) (enumerate 0 locs)))"
  by (simp add: otherLocations_def locPos_def comp_def case_prod_unfold)

lemma set_otherLocations:
  "set (otherLocations keepIndex locs)
   = {locPos (locs ! i) | i. i < length locs \<and> i \<noteq> keepIndex}"
  by (auto simp: otherLocations_eq in_set_enumerate_eq image_iff)

lemma otherLocations_subset: "set (otherLocations keepIndex locs) \<subseteq> locPos ` set locs"
  by (auto simp: set_otherLocations)

lemma distinct_otherLocations:
  assumes "distinct (map locPos locs)"
  shows "distinct (otherLocations keepIndex locs)"
proof -
  have "distinct (map (locPos \<circ> snd) (enumerate 0 locs))"
    using assms by (simp add: map_snd_enumerate flip: map_map)
  then have "distinct (map (locPos \<circ> snd) (filter (\<lambda>(i, loc). i \<noteq> keepIndex) (enumerate 0 locs)))"
    by (rule distinct_map_filter)
  then show ?thesis by (simp add: otherLocations_eq)
qed

lemma keep_one:
  assumes d: "distinct (map locPos locs)" and k: "keepIndex < length locs"
  shows "filter (\<lambda>l. locPos l \<notin> set (otherLocations keepIndex locs)) locs = [locs ! keepIndex]"
proof -
  have inj: "locPos (locs ! i) = locPos (locs ! j) \<longleftrightarrow> i = j"
    if "i < length locs" "j < length locs" for i j
    using d that nth_eq_iff_index_eq[of "map locPos locs" i j] by simp
  have kept: "locPos (locs ! keepIndex) \<notin> set (otherLocations keepIndex locs)"
    using inj k by (auto simp: set_otherLocations)
  have gone: "locPos (locs ! i) \<in> set (otherLocations keepIndex locs)"
    if "i < length locs" "i \<noteq> keepIndex" for i
    using that by (auto simp: set_otherLocations)
  have split: "locs = take keepIndex locs @ locs ! keepIndex # drop (Suc keepIndex) locs"
    using k by (rule id_take_nth_drop)
  have 1: "filter (\<lambda>l. locPos l \<notin> set (otherLocations keepIndex locs)) (take keepIndex locs) = []"
  proof -
    have "locPos l \<in> set (otherLocations keepIndex locs)" if "l \<in> set (take keepIndex locs)" for l
    proof -
      from that obtain i where "i < keepIndex" "i < length locs" "l = locs ! i"
        by (auto simp: in_set_conv_nth)
      then show ?thesis using gone by auto
    qed
    then show ?thesis by (auto simp: filter_empty_conv)
  qed
  have 2: "filter (\<lambda>l. locPos l \<notin> set (otherLocations keepIndex locs)) (drop (Suc keepIndex) locs) = []"
  proof -
    have "locPos l \<in> set (otherLocations keepIndex locs)"
      if "l \<in> set (drop (Suc keepIndex) locs)" for l
    proof -
      from that obtain i where "i < length locs - Suc keepIndex" "l = locs ! (Suc keepIndex + i)"
        by (auto simp: in_set_conv_nth)
      then show ?thesis using gone[of "Suc keepIndex + i"] by auto
    qed
    then show ?thesis by (auto simp: filter_empty_conv)
  qed
  have "filter (\<lambda>l. locPos l \<notin> set (otherLocations keepIndex locs))
          (take keepIndex locs @ locs ! keepIndex # drop (Suc keepIndex) locs) = [locs ! keepIndex]"
    using 1 2 kept by simp
  then show ?thesis using split by simp
qed

lemma filter_disjoint_marks:
  assumes "set A \<inter> locPos ` set locs = {}"
  shows "filter (\<lambda>l. locPos l \<notin> set (B @ A)) locs = filter (\<lambda>l. locPos l \<notin> set B) locs"
    and "filter (\<lambda>l. locPos l \<notin> set (A @ B)) locs = filter (\<lambda>l. locPos l \<notin> set B) locs"
  using assms by (auto intro!: filter_cong)

lemma markDuplicates_props:
  assumes "distinct (map locPos (concat (map snd pl)))"
      and "markDuplicates random n pl = Inr (marks, n')"
  shows "set marks \<subseteq> locPos ` set (concat (map snd pl))
         \<and> distinct marks
         \<and> (\<forall>(k, locs)\<in>set pl. locs \<noteq> [] \<longrightarrow>
              (\<exists>j<length locs. filter (\<lambda>l. locPos l \<notin> set marks) locs = [locs ! j]))"
  using assms
proof (induction pl arbitrary: n marks n')
  case Nil
  then show ?case by simp
next
  case (Cons g rest)
  obtain k locs where g: "g = (k, locs)" by (cases g)
  from Cons.prems(1) have dl: "distinct (map locPos locs)"
    and dr: "distinct (map locPos (concat (map snd rest)))"
    and dis: "locPos ` set locs \<inter> locPos ` set (concat (map snd rest)) = {}"
    by (simp_all add: g)
  show ?case
  proof (cases "length locs > 1")
    case True
    define keepIndex where "keepIndex = \<lfloor>random n * of_nat (length locs)\<rfloor>"
    from Cons.prems(2) True have rng: "0 \<le> keepIndex \<and> keepIndex < int (length locs)"
      by (auto simp: g keepIndex_def Let_def split: if_splits)
    from Cons.prems(2) True rng obtain marks_r where
      mr: "markDuplicates random (Suc n) rest = Inr (marks_r, n')"
      and marks: "marks = otherLocations (nat keepIndex) locs @ marks_r"
      by (auto simp: g keepIndex_def Let_def split: sum.splits)
    from Cons.IH[OF dr mr] have ih1: "set marks_r \<subseteq> locPos ` set (concat (map snd rest))"
      and ih2: "distinct marks_r"
      and ih3: "\<forall>(k, locs)\<in>set rest. locs \<noteq> [] \<longrightarrow>
              (\<exists>j<length locs. filter (\<lambda>l. locPos l \<notin> set marks_r) locs = [locs ! j])"
      by blast+
    have kl: "nat keepIndex < length locs" using rng by auto
    have o: "set (otherLocations (nat keepIndex) locs) \<subseteq> locPos ` set locs"
      by (rule otherLocations_subset)
    have "set marks \<subseteq> locPos ` set locs \<union> locPos ` set (concat (map snd rest))"
      using o ih1 unfolding marks by auto
    then have a: "set marks \<subseteq> locPos ` set (concat (map snd (g # rest)))"
      by (simp add: g image_Un)
    have "set (otherLocations (nat keepIndex) locs) \<inter> set marks_r = {}"
      using o ih1 dis by blast
    then have b: "distinct marks"
      using distinct_otherLocations[OF dl] ih2 by (simp add: marks)
    have c: "\<exists>j<length locs. filter (\<lambda>l. locPos l \<notin> set marks) locs = [locs ! j]"
    proof -
      have "set marks_r \<inter> locPos ` set locs = {}" using ih1 dis by blast
      then have "filter (\<lambda>l. locPos l \<notin> set marks) locs
            = filter (\<lambda>l. locPos l \<notin> set (otherLocations (nat keepIndex) locs)) locs"
        unfolding marks by (rule filter_disjoint_marks(1))
      then show ?thesis using keep_one[OF dl kl] kl by auto
    qed
    have d: "\<exists>j<length locs'. filter (\<lambda>l. locPos l \<notin> set marks) locs' = [locs' ! j]"
      if "(k', locs') \<in> set rest" "locs' \<noteq> []" for k' locs'
    proof -
      have "set locs' \<subseteq> set (concat (map snd rest))" using that(1) by force
      then have "locPos ` set locs' \<subseteq> locPos ` set (concat (map snd rest))"
        by (rule image_mono)
      then have "set (otherLocations (nat keepIndex) locs) \<inter> locPos ` set locs' = {}"
        using o dis by blast
      then have "filter (\<lambda>l. locPos l \<notin> set marks) locs'
            = filter (\<lambda>l. locPos l \<notin> set marks_r) locs'"
        unfolding marks by (rule filter_disjoint_marks(2))
      then show ?thesis using ih3 that by auto
    qed
    show ?thesis using a b c d by (auto simp: g)
  next
    case False
    from Cons.prems(2) False have mr: "markDuplicates random n rest = Inr (marks, n')"
      by (simp add: g)
    from Cons.IH[OF dr mr] have ih1: "set marks \<subseteq> locPos ` set (concat (map snd rest))"
      and ih2: "distinct marks"
      and ih3: "\<forall>(k, locs)\<in>set rest. locs \<noteq> [] \<longrightarrow>
              (\<exists>j<length locs. filter (\<lambda>l. locPos l \<notin> set marks) locs = [locs ! j])"
      by blast+
    have c: "\<exists>j<length locs. filter (\<lambda>l. locPos l \<notin> set marks) locs = [locs ! j]"
      if "locs \<noteq> []"
    proof -
      from that False obtain l where l: "locs = [l]" by (cases locs) auto
      have "locPos l \<in> locPos ` set locs" using l by simp
      then have "locPos l \<notin> set marks" using ih1 dis by blast
      then show ?thesis using l by simp
    qed
    have "set marks \<subseteq> locPos ` set locs \<union> locPos ` set (concat (map snd rest))"
      using ih1 by blast
    then have a: "set marks \<subseteq> locPos ` set (concat (map snd (g # rest)))"
      by (simp add: g image_Un)
    show ?thesis using a ih2 ih3 c by (auto simp: g)
  qed
qed

lemma floor_index_in_range:
  fixes r :: rat
  assumes "0 \<le> r" "r < 1" "0 < len"
  shows "0 \<le> \<lfloor>r * of_nat len\<rfloor> \<and> \<lfloor>r * of_nat len\<rfloor> < int len"
proof
  show "0 \<le> \<lfloor>r * of_nat len\<rfloor>" using assms by simp
  have "r * of_nat len < of_nat len" using assms by simp
  then show "\<lfloor>r * of_nat len\<rfloor> < int len" by (simp add: floor_less_iff)
qed

lemma markDuplicates_total:
  assumes "\<forall>i. 0 \<le> random i \<and> random i < 1"
  shows "\<exists>marks n'. markDuplicates random n pl = Inr (marks, n')"
proof (induction pl arbitrary: n)
  case Nil
  then show ?case by simp
next
  case (Cons g rest)
  obtain k locs where g: "g = (k, locs)" by (cases g)
  show ?case
  proof (cases "length locs > 1")
    case True
    then have "0 < length locs" by (cases locs) simp_all
    moreover have "0 \<le> random n" "random n < 1" using assms by auto
    ultimately have "0 \<le> \<lfloor>random n * of_nat (length locs)\<rfloor>
               \<and> \<lfloor>random n * of_nat (length locs)\<rfloor> < int (length locs)"
      by (intro floor_index_in_range)
    moreover obtain marks n' where "markDuplicates random (Suc n) rest = Inr (marks, n')"
      using Cons.IH by blast
    ultimately show ?thesis using True by (simp add: g Let_def)
  next
    case False
    then show ?thesis using Cons.IH[of n] by (simp add: g)
  qed
qed

lemma removeDuplicatesRandomly_char:
  assumes "removeDuplicatesRandomly random n data = Inr (data', dups, n')"
  shows "\<exists>marks. markDuplicates random n (practiceLocations (standards data)) = Inr (marks, n')
           \<and> distinct marks
           \<and> standards data' = withoutIndices (set marks) (standards data)
           \<and> dups = length marks"
proof -
  from assms obtain marks where
    m: "markDuplicates random n (practiceLocations (standards data)) = Inr (marks, n')"
    and d: "data' = data\<lparr>standards :=
                      foldl removePractice (standards data) (js_sort compareRemoval marks)\<rparr>"
    and l: "dups = length marks"
    by (auto simp: removeDuplicatesRandomly_def split: sum.splits)
  have dm: "distinct marks"
    using markDuplicates_props[OF practiceLocations_distinct_pos m] by blast
  show ?thesis using m dm l d remove_sorted_indices[OF dm] by auto
qed

lemma removeDuplicatesRandomly_total:
  assumes "\<forall>i. 0 \<le> random i \<and> random i < 1"
  shows "\<exists>data' dups n'. removeDuplicatesRandomly random n data = Inr (data', dups, n')"
  using markDuplicates_total[OF assms, of n "practiceLocations (standards data)"]
  by (auto simp: removeDuplicatesRandomly_def)

section \<open>Removing duplicates: the members that remain\<close>

lemma map_snd_filter_enumerate:
  "map snd (filter (\<lambda>(i, p). Q p) (enumerate n ps)) = filter Q ps"
proof -
  have "filter Q ps = filter Q (map snd (enumerate n ps))" by simp
  also have "\<dots> = map snd (filter (Q \<circ> snd) (enumerate n ps))" by (rule filter_map)
  finally show ?thesis by (simp add: comp_def case_prod_unfold)
qed

lemma tracked_keepOutside:
  "filter (\<lambda>p. p \<noteq> []) (keepOutside R c (std_practices cat))
   = map practiceName (filter (\<lambda>l. locPos l \<notin> R) (categoryLocations c cat))"
proof -
  have "filter (\<lambda>p. p \<noteq> []) (keepOutside R c (std_practices cat))
        = map snd (filter (\<lambda>(i, p). (c, i) \<notin> R \<and> p \<noteq> []) (enumerate 0 (std_practices cat)))"
    by (simp add: keepOutside_def filter_map comp_def case_prod_unfold)
  moreover have "map practiceName (filter (\<lambda>l. locPos l \<notin> R) (categoryLocations c cat))
        = map snd (filter (\<lambda>(i, p). p \<noteq> [] \<and> (c, i) \<notin> R) (enumerate 0 (std_practices cat)))"
    by (simp add: categoryLocations_def filter_map comp_def case_prod_unfold locPos_def)
  moreover have "filter (\<lambda>(i, p). (c, i) \<notin> R \<and> p \<noteq> []) (enumerate 0 (std_practices cat))
        = filter (\<lambda>(i, p). p \<noteq> [] \<and> (c, i) \<notin> R) (enumerate 0 (std_practices cat))"
    by (rule filter_cong) auto
  ultimately show ?thesis by simp
qed

lemma tracked_from:
  "filter (\<lambda>p. p \<noteq> [])
     (concat (map (\<lambda>(c, cat). keepOutside R c (std_practices cat)) (enumerate n stds)))
   = map practiceName (filter (\<lambda>l. locPos l \<notin> R) (locationsFrom n stds))"
proof (induction stds arbitrary: n)
  case Nil
  then show ?case by (simp add: locationsFrom_def)
next
  case (Cons cat stds)
  have "locationsFrom n (cat # stds) = categoryLocations n cat @ locationsFrom (Suc n) stds"
    by (simp add: locationsFrom_def)
  then show ?case using Cons.IH[of "Suc n"] tracked_keepOutside[of R n cat] by simp
qed

lemma practices_withoutIndices:
  "map std_practices (withoutIndices R stds)
   = map (\<lambda>(c, cat). keepOutside R c (std_practices cat)) (enumerate 0 stds)"
  by (simp add: withoutIndices_def comp_def case_prod_unfold)

lemma tracked_withoutIndices:
  assumes "standards data' = withoutIndices R (standards data)"
  shows "trackedMembers data'
         = map practiceName (filter (\<lambda>l. locPos l \<notin> R) (allLocations (standards data)))"
  unfolding trackedMembers_def allMembers_def assms practices_withoutIndices allLocations_from
  by (rule tracked_from)

lemma tracked_original:
  "trackedMembers data = map practiceName (allLocations (standards data))"
  using tracked_withoutIndices[of data "{}" data] by (simp add: withoutIndices_empty)

lemma distinct_if_count_le_1:
  assumes "\<And>k. length (filter (\<lambda>x. f x = k) xs) \<le> 1"
  shows "distinct (map f xs)"
  using assms
proof (induction xs)
  case Nil
  then show ?case by simp
next
  case (Cons x xs)
  have "f x \<notin> f ` set xs"
  proof
    assume "f x \<in> f ` set xs"
    then obtain y where "y \<in> set xs" "f y = f x" by auto
    then have "filter (\<lambda>z. f z = f x) xs \<noteq> []" by (auto simp: filter_empty_conv)
    then have "length (filter (\<lambda>z. f z = f x) xs) \<ge> 1" by (cases "filter (\<lambda>z. f z = f x) xs") auto
    then have "length (filter (\<lambda>z. f z = f x) (x # xs)) \<ge> 2" by simp
    with Cons.prems[of "f x"] show False by simp
  qed
  moreover have "length (filter (\<lambda>z. f z = k) xs) \<le> 1" for k
    using Cons.prems[of k] by (simp split: if_splits)
  ultimately show ?case using Cons.IH by simp
qed

lemma marks_props:
  assumes m: "markDuplicates random n (practiceLocations stds) = Inr (marks, n')"
  shows "set marks \<subseteq> locPos ` set (allLocations stds)"
    and "\<And>l. l \<in> set (allLocations stds) \<Longrightarrow>
           \<exists>j<length (filter (\<lambda>l'. locKey l' = locKey l) (allLocations stds)).
             filter (\<lambda>l'. locPos l' \<notin> set marks) (filter (\<lambda>l'. locKey l' = locKey l) (allLocations stds))
             = [filter (\<lambda>l'. locKey l' = locKey l) (allLocations stds) ! j]"
proof -
  note p = markDuplicates_props[OF practiceLocations_distinct_pos m]
  have "mset (concat (map snd (practiceLocations stds))) = mset (allLocations stds)"
    unfolding practiceLocations_pushAll mset_pushAll by simp
  then have "set (concat (map snd (practiceLocations stds))) = set (allLocations stds)"
    by (rule mset_eq_setD)
  then show "set marks \<subseteq> locPos ` set (allLocations stds)" using p by simp
  fix l assume l: "l \<in> set (allLocations stds)"
  let ?G = "filter (\<lambda>l'. locKey l' = locKey l) (allLocations stds)"
  have "(locKey l, ?G) \<in> set (practiceLocations stds)" using l by (rule practiceLocations_key)
  moreover have "?G \<noteq> []" using l by (auto simp: filter_empty_conv)
  ultimately show "\<exists>j<length ?G. filter (\<lambda>l'. locPos l' \<notin> set marks) ?G = [?G ! j]"
    using p by blast
qed

lemma count_after:
  assumes m: "markDuplicates random n (practiceLocations (standards data)) = Inr (marks, n')"
      and s: "standards data' = withoutIndices (set marks) (standards data)"
  shows "length (filter (\<lambda>p. normalizeName p = k) (trackedMembers data'))
         = (if k \<in> normalizeName ` set (trackedMembers data) then 1 else 0)"
proof -
  let ?L = "allLocations (standards data)"
  let ?G = "filter (\<lambda>l. locKey l = k) ?L"
  have eq: "filter (\<lambda>p. normalizeName p = k) (trackedMembers data')
        = map practiceName (filter (\<lambda>l. locPos l \<notin> set marks) ?G)"
    unfolding tracked_withoutIndices[OF s]
    by (simp add: filter_map comp_def locKey_def conj_commute)
  have mem: "(k \<in> normalizeName ` set (trackedMembers data)) = (?G \<noteq> [])"
    unfolding tracked_original by (auto simp: filter_empty_conv locKey_def)
  show ?thesis
  proof (cases "?G = []")
    case True
    then show ?thesis using eq mem by simp
  next
    case False
    then obtain l where l: "l \<in> set ?L" "locKey l = k"
      by (auto simp: filter_empty_conv)
    from marks_props(2)[OF m l(1)] l(2)
    obtain j where "filter (\<lambda>l'. locPos l' \<notin> set marks) ?G = [?G ! j]" by auto
    then show ?thesis using eq mem False by simp
  qed
qed

lemma subseq_keepOutside: "subseq (keepOutside R c ps) ps"
proof -
  have "subseq (map snd (filter (\<lambda>(i, p). (c, i) \<notin> R) (enumerate 0 ps))) (map snd (enumerate 0 ps))"
    by (intro subseq_map subseq_filter_left)
  then show ?thesis by (simp add: keepOutside_def)
qed

lemma location_lookup:
  assumes "l \<in> set (locationsFrom n stds)"
  shows "n \<le> categoryIndex l \<and> categoryIndex l - n < length stds
         \<and> practiceIndex l < length (std_practices (stds ! (categoryIndex l - n)))
         \<and> practiceName l = std_practices (stds ! (categoryIndex l - n)) ! practiceIndex l"
proof -
  from assms obtain c cat where cc: "(c, cat) \<in> set (enumerate n stds)"
    and l: "l \<in> set (categoryLocations c cat)"
    by (auto simp: locationsFrom_def)
  from cc have c: "n \<le> c" "c < n + length stds" "cat = stds ! (c - n)"
    by (auto simp: in_set_enumerate_eq)
  from l obtain i p where ip: "(i, p) \<in> set (enumerate 0 (std_practices cat))"
    and leq: "l = \<lparr>categoryIndex = c, practiceIndex = i, practiceName = p\<rparr>"
    by (auto simp: categoryLocations_def)
  from ip have "i < length (std_practices cat)" "p = std_practices cat ! i"
    by (auto simp: in_set_enumerate_eq)
  then show ?thesis using c leq by auto
qed

lemma untouched_kept:
  assumes m: "markDuplicates random n (practiceLocations (standards data)) = Inr (marks, n')"
      and c: "c < length (standards data)"
  shows "filter (neverDuplicated data) (keepOutside (set marks) c (std_practices (standards data ! c)))
         = filter (neverDuplicated data) (std_practices (standards data ! c))"
proof -
  let ?ps = "std_practices (standards data ! c)"
  let ?L = "allLocations (standards data)"
  have notmarked: "(c, i) \<notin> set marks"
    if ip: "(i, p) \<in> set (enumerate 0 ?ps)" and nd: "neverDuplicated data p" for i p
  proof
    assume "(c, i) \<in> set marks"
    then obtain l where l: "l \<in> set ?L" "locPos l = (c, i)"
      using marks_props(1)[OF m] by auto
    from location_lookup[of l 0 "standards data"] l
    have pn: "practiceName l = ?ps ! i" and ne: "practiceName l \<noteq> []"
      using locationsFrom_nonempty[of l 0 "standards data"]
      by (auto simp: allLocations_from locPos_def)
    from ip have p: "p = ?ps ! i" by (auto simp: in_set_enumerate_eq)
    let ?G = "filter (\<lambda>l'. locKey l' = locKey l) ?L"
    have "length (filter (\<lambda>q. normalizeName q = normalizeName p) (trackedMembers data)) = length ?G"
      unfolding tracked_original using pn p
      by (simp add: filter_map comp_def locKey_def)
    then have "length ?G \<le> 1" using nd ne pn p by (simp add: neverDuplicated_def)
    moreover have "l \<in> set ?G" using l(1) by simp
    ultimately have G: "?G = [l]"
      by (cases ?G) (auto simp: length_Suc_conv)
    from marks_props(2)[OF m l(1)] obtain j where
      "filter (\<lambda>l'. locPos l' \<notin> set marks) ?G = [?G ! j]" by blast
    then have "locPos l \<notin> set marks" unfolding G by (auto split: if_splits)
    then show False using l(2) \<open>(c, i) \<in> set marks\<close> by simp
  qed
  have "filter (neverDuplicated data) (keepOutside (set marks) c ?ps)
        = map snd (filter (\<lambda>(i, p). (c, i) \<notin> set marks \<and> neverDuplicated data p) (enumerate 0 ?ps))"
    by (simp add: keepOutside_def filter_map comp_def case_prod_unfold)
  also have "\<dots> = map snd (filter (\<lambda>(i, p). neverDuplicated data p) (enumerate 0 ?ps))"
    by (rule arg_cong[where f = "map snd"], rule filter_cong) (use notmarked in auto)
  also have "\<dots> = filter (neverDuplicated data) ?ps"
    by (rule map_snd_filter_enumerate)
  finally show ?thesis .
qed

lemma removeDuplicatesRandomly_props:
  assumes r: "removeDuplicatesRandomly random n data = Inr (data', duplicatesRemoved, n')"
  shows "length (standards data') = length (standards data)"
    and "distinct (map normalizeName (trackedMembers data'))"
    and "normalizeName ` set (trackedMembers data') = normalizeName ` set (trackedMembers data)"
    and "\<And>c. c < length (standards data) \<Longrightarrow>
           std_name (standards data' ! c) = std_name (standards data ! c)
           \<and> std_description (standards data' ! c) = std_description (standards data ! c)
           \<and> subseq (std_practices (standards data' ! c)) (std_practices (standards data ! c))
           \<and> filter (neverDuplicated data) (std_practices (standards data' ! c))
             = filter (neverDuplicated data) (std_practices (standards data ! c))"
proof -
  from removeDuplicatesRandomly_char[OF r] obtain marks where
    m: "markDuplicates random n (practiceLocations (standards data)) = Inr (marks, n')"
    and s: "standards data' = withoutIndices (set marks) (standards data)"
    by blast
  note cnt = count_after[OF m s]
  show "length (standards data') = length (standards data)" by (simp add: s)
  show "distinct (map normalizeName (trackedMembers data'))"
    by (rule distinct_if_count_le_1) (simp add: cnt)
  show "normalizeName ` set (trackedMembers data') = normalizeName ` set (trackedMembers data)"
  proof -
    have "(k \<in> normalizeName ` set (trackedMembers data'))
          = (k \<in> normalizeName ` set (trackedMembers data))" for k
    proof -
      have "(k \<in> normalizeName ` set (trackedMembers data'))
            = (filter (\<lambda>p. normalizeName p = k) (trackedMembers data') \<noteq> [])"
        by (auto simp: filter_empty_conv)
      also have "\<dots> = (length (filter (\<lambda>p. normalizeName p = k) (trackedMembers data')) \<noteq> 0)"
        by simp
      also have "\<dots> = (k \<in> normalizeName ` set (trackedMembers data))"
        unfolding cnt by simp
      finally show ?thesis .
    qed
    then show ?thesis by blast
  qed
  fix c assume c: "c < length (standards data)"
  have 1: "std_name (standards data' ! c) = std_name (standards data ! c)"
    using c by (simp add: s nth_withoutIndices)
  have 2: "std_description (standards data' ! c) = std_description (standards data ! c)"
    using c by (simp add: s nth_withoutIndices)
  have 3: "subseq (std_practices (standards data' ! c)) (std_practices (standards data ! c))"
    using c by (simp add: s nth_withoutIndices subseq_keepOutside)
  have 4: "filter (neverDuplicated data) (std_practices (standards data' ! c))
        = filter (neverDuplicated data) (std_practices (standards data ! c))"
    using c untouched_kept[OF m c] by (simp add: s nth_withoutIndices)
  show "std_name (standards data' ! c) = std_name (standards data ! c)
           \<and> std_description (standards data' ! c) = std_description (standards data ! c)
           \<and> subseq (std_practices (standards data' ! c)) (std_practices (standards data ! c))
           \<and> filter (neverDuplicated data) (std_practices (standards data' ! c))
             = filter (neverDuplicated data) (std_practices (standards data ! c))"
    using 1 2 3 4 by blast
qed

section \<open>Removing duplicates: the retained occurrence\<close>






















section \<open>Duplicate resolution\<close>




section \<open>The post-processing loop\<close>

lemma keys_map_set: "fst ` set (map_set k v m) = insert k (fst ` set m)"
proof (induction m)
  case Nil
  then show ?case by simp
next
  case (Cons a m)
  obtain k' v' where a: "a = (k', v')" by (cases a)
  show ?case
  proof (cases "k' = k")
    case True
    then show ?thesis by (simp add: a insert_absorb2)
  next
    case False
    then show ?thesis using Cons.IH by (simp add: a insert_commute)
  qed
qed

lemma distinct_map_set: "distinct (map fst m) \<Longrightarrow> distinct (map fst (map_set k v m))"
proof (induction m)
  case Nil
  then show ?case by simp
next
  case (Cons a m)
  obtain k' v' where a: "a = (k', v')" by (cases a)
  show ?case using Cons keys_map_set[of k v m] by (auto simp: a)
qed

lemma entries_map_set: "set (map_set k v m) \<subseteq> insert (k, v) (set m)"
  by (induction m) (auto split: if_splits)

lemma extractInto_Cons:
  "extractInto m (name # names)
   = extractInto (if name \<noteq> [] then map_set (normalizeName name) name m else m) names"
  by (simp add: extractInto_def)

lemma extractInto_props:
  assumes "distinct (map fst m)" "\<forall>(k, v)\<in>set m. k = normalizeName v \<and> v \<noteq> []"
  shows "distinct (map fst (extractInto m names))
       \<and> (\<forall>(k, v)\<in>set (extractInto m names). k = normalizeName v \<and> v \<noteq> [])
       \<and> (\<forall>name\<in>set names. name \<noteq> [] \<longrightarrow> normalizeName name \<in> set (map fst (extractInto m names)))
       \<and> set (map fst m) \<subseteq> set (map fst (extractInto m names))"
  using assms
proof (induction names arbitrary: m)
  case Nil
  then show ?case by (simp add: extractInto_def)
next
  case (Cons name names)
  define m' where "m' = (if name \<noteq> [] then map_set (normalizeName name) name m else m)"
  have d: "distinct (map fst m')" using Cons.prems(1) by (simp add: m'_def distinct_map_set)
  have e: "\<forall>(k, v)\<in>set m'. k = normalizeName v \<and> v \<noteq> []"
    using Cons.prems(2) entries_map_set[of "normalizeName name" name m]
    by (auto simp: m'_def)
  have s: "set (map fst m) \<subseteq> set (map fst m')"
    by (simp add: m'_def keys_map_set subset_insertI)
  have n: "name \<noteq> [] \<longrightarrow> normalizeName name \<in> set (map fst m')"
    by (simp add: m'_def keys_map_set)
  have c: "extractInto m (name # names) = extractInto m' names"
    by (simp add: extractInto_Cons m'_def)
  from Cons.IH[OF d e] have
    ih1: "distinct (map fst (extractInto m' names))"
    and ih2: "\<forall>(k, v)\<in>set (extractInto m' names). k = normalizeName v \<and> v \<noteq> []"
    and ih3: "\<forall>name\<in>set names. name \<noteq> [] \<longrightarrow>
                normalizeName name \<in> set (map fst (extractInto m' names))"
    and ih4: "set (map fst m') \<subseteq> set (map fst (extractInto m' names))"
    by blast+
  have 3: "\<forall>name'\<in>set (name # names). name' \<noteq> [] \<longrightarrow>
             normalizeName name' \<in> set (map fst (extractInto m' names))"
    using n ih3 ih4 by (simp del: set_map) blast
  have 4: "set (map fst m) \<subseteq> set (map fst (extractInto m' names))"
    using s ih4 by blast
  show ?case unfolding c using ih1 ih2 3 4 by blast
qed

lemma extractOriginalPracticeNames_props:
  "distinct (map fst (extractOriginalPracticeNames names))"
  "(k, v) \<in> set (extractOriginalPracticeNames names) \<Longrightarrow> k = normalizeName v \<and> v \<noteq> []"
  "name \<in> set names \<Longrightarrow> name \<noteq> [] \<Longrightarrow>
     normalizeName name \<in> set (map fst (extractOriginalPracticeNames names))"
  using extractInto_props[of "[]" names]
  by (auto simp: extractOriginalPracticeNames_def extractInto_def)

lemma mergePractices_total:
  "list_all isJStr ps \<Longrightarrow> \<exists>r. mergePractices ps practices = Inr r"
proof (induction ps arbitrary: practices)
  case Nil
  then show ?case by simp
next
  case (Cons v ps)
  then obtain s where v: "v = JStr s" by (cases v) (auto simp: isJStr_def)
  from Cons have "\<exists>r. mergePractices ps p = Inr r" for p by simp
  then show ?case by (simp add: v Let_def)
qed

lemma nullish_getProp: "nullish c \<Longrightarrow> getProp c key = JUndefined"
  by (cases c) auto

lemma mergeCategories_total:
  "list_all categoryShape cats \<Longrightarrow> \<exists>r. mergeCategories byName cats stds = Inr r"
proof (induction cats arbitrary: stds)
  case Nil
  then show ?case by simp
next
  case (Cons c cats)
  from Cons.prems have cs: "categoryShape c" and rest: "list_all categoryShape cats" by auto
  from cs obtain name ps where n: "getProp c ''name'' = JStr name"
    and p: "getProp c ''practices'' = JArr ps" and s: "list_all isJStr ps"
    by (auto simp: categoryShape_def split: jsval.splits)
  have nn: "\<not> nullish c" using n nullish_getProp[of c "''name''"] by auto
  have ih: "\<exists>r. mergeCategories byName cats stds' = Inr r" for stds'
    using Cons.IH[OF rest] by simp
  show ?case
  proof (cases "map_of byName (normalizeName name)")
    case None
    then show ?thesis using nn n ih by simp
  next
    case (Some idx)
    obtain merged where "mergePractices ps (std_practices (stds ! idx)) = Inr merged"
      using mergePractices_total[OF s] by blast
    then show ?thesis using nn n p Some ih by simp
  qed
qed

lemma mergeRetryResults_total:
  assumes "acceptableReply (LLMReturns retryLoaded)"
  shows "\<exists>merged. mergeRetryResults existing retryLoaded = Inr merged"
proof (cases retryLoaded)
  case None
  then show ?thesis by (simp add: mergeRetryResults_def)
next
  case (Some v)
  show ?thesis
  proof (cases "nullish v \<or> \<not> truthy (getProp v ''standards'')")
    case True
    then show ?thesis using Some by (simp add: mergeRetryResults_def)
  next
    case False
    with assms Some have "expectedRetryShape v" by (simp add: acceptableReply_def)
    then obtain cats where c: "getProp v ''standards'' = JArr cats" "list_all categoryShape cats"
      by (auto simp: expectedRetryShape_def split: jsval.splits)
    obtain stds where "mergeCategories (existingByName (standards existing)) cats
                         (standards existing) = Inr stds"
      using mergeCategories_total[OF c(2)] by blast
    then show ?thesis using Some False c(1) by (simp add: mergeRetryResults_def)
  qed
qed

lemma postProcessLoop_total:
  "unitInterval random \<Longrightarrow> (\<forall>a. acceptableReply (llm a)) \<Longrightarrow>
   \<exists>looped. postProcessLoop random llm originalPractices attempt n mapping = Inr looped"
proof (induction random llm originalPractices attempt n mapping rule: postProcessLoop.induct)
  case (1 random llm originalPractices attempt n mapping)
  show ?case
  proof (cases "attempt \<le> MAX_RETRIES")
    case False
    then show ?thesis by (subst postProcessLoop.simps) simp
  next
    case True
    obtain deduped d n' where
      rd: "removeDuplicatesRandomly random n mapping = Inr (deduped, d, n')"
      using removeDuplicatesRandomly_total "1.prems"(1) unfolding unitInterval_def by blast
    show ?thesis
    proof (cases "findMissingPractices originalPractices deduped = []")
      case True
      then show ?thesis using \<open>attempt \<le> MAX_RETRIES\<close> rd
        by (subst postProcessLoop.simps) simp
    next
      case False
      show ?thesis
      proof (cases "attempt < MAX_RETRIES")
        case True
        from "1.prems"(2) have "acceptableReply (llm attempt)" by simp
        then obtain retryLoaded where l: "llm attempt = LLMReturns retryLoaded"
          by (cases "llm attempt") (auto simp: acceptableReply_def)
        with \<open>acceptableReply (llm attempt)\<close> obtain merged where
          m: "mergeRetryResults deduped retryLoaded = Inr merged"
          using mergeRetryResults_total by metis
        from "1.IH"(1)[OF \<open>attempt \<le> MAX_RETRIES\<close> rd refl refl False True l m "1.prems"]
        obtain looped where
          "postProcessLoop random llm originalPractices (Suc attempt) n' merged = Inr looped"
          by blast
        then show ?thesis using \<open>attempt \<le> MAX_RETRIES\<close> rd False True l m
          by (subst postProcessLoop.simps) simp
      next
        case nl: False
        from "1.IH"(2)[OF \<open>attempt \<le> MAX_RETRIES\<close> rd refl refl False nl "1.prems"]
        obtain looped where
          "postProcessLoop random llm originalPractices (Suc attempt) n' deduped = Inr looped"
          by blast
        then show ?thesis using \<open>attempt \<le> MAX_RETRIES\<close> rd False nl
          by (subst postProcessLoop.simps) simp
      qed
    qed
  qed
qed

lemma removeDuplicatesRandomly_dedupd:
  "removeDuplicatesRandomly random n data = Inr (data', d, n') \<Longrightarrow> dedupd data'"
  unfolding dedupd_def by (rule removeDuplicatesRandomly_props(2))

lemma postProcessLoop_dedupd:
  "postProcessLoop random llm originalPractices attempt n mapping = Inr looped \<Longrightarrow>
   attempt \<le> MAX_RETRIES \<or> dedupd mapping \<Longrightarrow> dedupd looped"
proof (induction random llm originalPractices attempt n mapping rule: postProcessLoop.induct)
  case (1 random llm originalPractices attempt n mapping)
  note res = "1.prems"(1)
  show ?case
  proof (cases "attempt \<le> MAX_RETRIES")
    case False
    then have "looped = mapping" using res by (subst (asm) postProcessLoop.simps) simp
    then show ?thesis using False "1.prems"(2) by simp
  next
    case True
    from res True obtain deduped d n' where
      rd: "removeDuplicatesRandomly random n mapping = Inr (deduped, d, n')"
      by (subst (asm) postProcessLoop.simps) (auto split: sum.splits)
    have dd: "dedupd deduped" using rd by (rule removeDuplicatesRandomly_dedupd)
    show ?thesis
    proof (cases "findMissingPractices originalPractices deduped = []")
      case True
      then have "looped = deduped" using res \<open>attempt \<le> MAX_RETRIES\<close> rd
        by (subst (asm) postProcessLoop.simps) simp
      then show ?thesis using dd by simp
    next
      case False
      show ?thesis
      proof (cases "attempt < MAX_RETRIES")
        case True
        from res \<open>attempt \<le> MAX_RETRIES\<close> rd False True obtain retryLoaded merged where
          l: "llm attempt = LLMReturns retryLoaded"
          and m: "mergeRetryResults deduped retryLoaded = Inr merged"
          and r: "postProcessLoop random llm originalPractices (Suc attempt) n' merged = Inr looped"
          by (subst (asm) postProcessLoop.simps) (auto split: retry_reply.splits sum.splits)
        have "Suc attempt \<le> MAX_RETRIES \<or> dedupd merged" using True by simp
        from "1.IH"(1)[OF \<open>attempt \<le> MAX_RETRIES\<close> rd refl refl False True l m r this]
        show ?thesis .
      next
        case nl: False
        from res \<open>attempt \<le> MAX_RETRIES\<close> rd False nl have
          r: "postProcessLoop random llm originalPractices (Suc attempt) n' deduped = Inr looped"
          by (subst (asm) postProcessLoop.simps) simp
        have "Suc attempt \<le> MAX_RETRIES \<or> dedupd deduped" using dd by simp
        from "1.IH"(2)[OF \<open>attempt \<le> MAX_RETRIES\<close> rd refl refl False nl r this]
        show ?thesis .
      qed
    qed
  qed
qed

lemma allMembers_fallback:
  "allMembers (m\<lparr>standards := standards m @ [toCategorize fm]\<rparr>) = allMembers m @ fm"
  by (simp add: allMembers_def toCategorize_def)

lemma mappedPractices_members: "mappedPractices m = map normalizeName (allMembers m)"
  by (simp add: mappedPractices_def allMembers_def)

lemma findMissing_mem:
  "v \<in> set (findMissingPractices orig m)
   \<Longrightarrow> \<exists>k. (k, v) \<in> set orig \<and> k \<notin> normalizeName ` set (allMembers m)"
  by (auto simp: findMissingPractices_def mappedPractices_members)

lemma findMissing_cover:
  "(k, v) \<in> set orig
   \<Longrightarrow> k \<in> normalizeName ` set (allMembers m) \<or> v \<in> set (findMissingPractices orig m)"
  by (force simp: findMissingPractices_def mappedPractices_members)

lemma findMissing_distinct:
  assumes "distinct (map fst orig)" "\<And>k v. (k, v) \<in> set orig \<Longrightarrow> k = normalizeName v"
  shows "distinct (map normalizeName (findMissingPractices orig m))"
proof -
  let ?P = "\<lambda>(normalized, original). normalized \<notin> set (mappedPractices m)"
  have "map normalizeName (findMissingPractices orig m) = map (normalizeName \<circ> snd) (filter ?P orig)"
    by (simp add: findMissingPractices_def)
  also have "\<dots> = map fst (filter ?P orig)"
    by (rule map_cong) (use assms(2) in auto)
  finally show ?thesis using assms(1) by (simp add: distinct_map_filter)
qed

lemma postProcessMapping_result:
  assumes "postProcessMapping random llm mapping orig = Inr result"
  obtains looped where
    "postProcessLoop random llm orig 1 0 mapping = Inr looped"
    "allMembers result = allMembers looped @ findMissingPractices orig looped"
proof -
  from assms obtain looped where l: "postProcessLoop random llm orig 1 0 mapping = Inr looped"
    and r: "result = (if findMissingPractices orig looped \<noteq> []
                     then looped\<lparr>standards := standards looped
                                      @ [toCategorize (findMissingPractices orig looped)]\<rparr>
                     else looped)"
    by (auto simp: postProcessMapping_def Let_def split: sum.splits if_splits)
  have "allMembers result = allMembers looped @ findMissingPractices orig looped"
    unfolding r by (simp add: allMembers_fallback)
  with l show ?thesis by (rule that)
qed

text \<open>
  Claim C1, as stated, fails: the initial mapping has a member, \<open>ghost\<close>, that is not an
  original practice name; post-processing returns the mapping as it is, and the union of
  the members is larger than the original set.
\<close>

theorem post_processing_extra_member_counterexample:
  "postProcessMapping zeroRandom neverParses ghostMapping
     (extractOriginalPracticeNames [''p1'']) = Inr ghostMapping
   \<and> map normalizeName (allMembers ghostMapping) = [''p1'', ''ghost'']
   \<and> map normalizeName [''p1''] = [''p1'']"
  by code_simp

text \<open>
  Claim C1, amended: for every initial mapping, every sequence of retry replies and
  every sequence of random values, whenever post-processing returns, every non-empty
  original practice name is, lower-cased and trimmed, the name of a member of some
  group, and no two non-empty members of the groups are equal after lower-casing and
  trimming. Post-processing does return when every random value lies in \<open>[0, 1)\<close> and
  every retry reply fails to parse, has no truthy \<open>standards\<close>, or has the expected
  shape. Members that are not original names are never removed, and empty member names
  are not deduplicated.
\<close>

theorem post_processing_completeness:
  "(unitInterval random \<and> (\<forall>attempt. acceptableReply (llm attempt)) \<longrightarrow>
      (\<exists>result. postProcessMapping random llm mapping (extractOriginalPracticeNames names)
                  = Inr result))
   \<and> (\<forall>result.
         postProcessMapping random llm mapping (extractOriginalPracticeNames names) = Inr result
         \<longrightarrow> (\<forall>name\<in>set names. name \<noteq> [] \<longrightarrow>
                 normalizeName name \<in> normalizeName ` set (allMembers result))
             \<and> distinct (map normalizeName (trackedMembers result)))"
proof (intro conjI impI allI ballI)
  assume "unitInterval random \<and> (\<forall>attempt. acceptableReply (llm attempt))"
  then obtain looped where
    "postProcessLoop random llm (extractOriginalPracticeNames names) 1 0 mapping = Inr looped"
    using postProcessLoop_total by blast
  then show "\<exists>result. postProcessMapping random llm mapping (extractOriginalPracticeNames names)
                  = Inr result"
    by (simp add: postProcessMapping_def Let_def)
next
  fix result
  assume r: "postProcessMapping random llm mapping (extractOriginalPracticeNames names) = Inr result"
  let ?orig = "extractOriginalPracticeNames names"
  from r obtain looped where
    l: "postProcessLoop random llm ?orig 1 0 mapping = Inr looped"
    and am: "allMembers result = allMembers looped @ findMissingPractices ?orig looped"
    by (rule postProcessMapping_result)
  let ?fm = "findMissingPractices ?orig looped"
  note op = extractOriginalPracticeNames_props
  {
    fix name assume "name \<in> set names" "name \<noteq> []"
    then have "normalizeName name \<in> set (map fst ?orig)" by (rule op(3))
    then obtain v where kv: "(normalizeName name, v) \<in> set ?orig" by auto
    then have nv: "normalizeName name = normalizeName v" using op(2) by blast
    from findMissing_cover[OF kv, of looped]
    show "normalizeName name \<in> normalizeName ` set (allMembers result)"
      unfolding am using nv by auto
  }
  have dl: "distinct (map normalizeName (trackedMembers looped))"
    using postProcessLoop_dedupd[OF l] by (simp add: MAX_RETRIES_def dedupd_def)
  have ne: "v \<noteq> []" and out: "normalizeName v \<notin> normalizeName ` set (allMembers looped)"
    if "v \<in> set ?fm" for v
    using findMissing_mem[OF that] op(2) by blast+
  have f: "filter (\<lambda>p. p \<noteq> []) ?fm = ?fm" using ne by (auto simp: filter_id_conv)
  have t: "trackedMembers result = trackedMembers looped @ ?fm"
    by (simp add: trackedMembers_def am f)
  have df: "distinct (map normalizeName ?fm)"
    by (rule findMissing_distinct) (use op(1,2) in auto)
  have "normalizeName ` set (trackedMembers looped) \<inter> normalizeName ` set ?fm = {}"
  proof (rule ccontr)
    assume "\<not> ?thesis"
    then obtain x where x1: "x \<in> normalizeName ` set (trackedMembers looped)"
      and x2: "x \<in> normalizeName ` set ?fm" by auto
    from x2 obtain v where v: "v \<in> set ?fm" "x = normalizeName v" by (rule imageE)
    from x1 obtain p where p: "p \<in> set (trackedMembers looped)" "x = normalizeName p"
      by (rule imageE)
    from p(1) have "p \<in> set (allMembers looped)" by (simp add: trackedMembers_def)
    then have "x \<in> normalizeName ` set (allMembers looped)" using p(2) by (rule rev_image_eqI)
    then show False using out[OF v(1)] v(2) by simp
  qed
  then show "distinct (map normalizeName (trackedMembers result))"
    unfolding t using dl df by simp
qed

text \<open>
  Witness for C1: seven practices. First, six of them in the initial mapping and a
  classifier whose every retry reply fails to parse: the seventh ends in the fallback
  group. Second, an initial mapping with \<open>p3\<close> in both groups and \<open>p7\<close> missing, and a
  classifier whose retry reply assigns \<open>p7\<close> to the first group: one occurrence of
  \<open>p3\<close> goes, \<open>p7\<close> joins the first group and there is no fallback group.
\<close>

theorem post_processing_completeness_witness:
  "(\<exists>result. postProcessMapping zeroRandom neverParses existingTwo
                (extractOriginalPracticeNames sevenNames) = Inr result
      \<and> map std_practices (standards result)
          = [[''p1'', ''p2'', ''p3'', ''p4''], [''p5'', ''p6''], [''p7'']]
      \<and> (\<forall>name\<in>set sevenNames. normalizeName name \<in> normalizeName ` set (allMembers result))
      \<and> distinct (map normalizeName (trackedMembers result)))
   \<and> (\<exists>result. postProcessMapping halfRandom repliesP7 duplicatedMapping
                  (extractOriginalPracticeNames sevenNames) = Inr result
        \<and> map std_practices (standards result)
            = [[''p1'', ''p2'', ''p4'', ''p7''], [''P3 '', ''p5'', ''p6'']]
        \<and> (\<forall>name\<in>set sevenNames.
              normalizeName name \<in> normalizeName ` set (allMembers result))
        \<and> distinct (map normalizeName (trackedMembers result)))"
proof -
  have u: "unitInterval zeroRandom" by (simp add: unitInterval_def zeroRandom_def)
  have a: "\<forall>attempt. acceptableReply (neverParses attempt)"
    by (simp add: acceptableReply_def neverParses_def)
  have e: "postProcessMapping zeroRandom neverParses existingTwo
             (extractOriginalPracticeNames sevenNames)
           = Inr (existingTwo\<lparr>standards := standards existingTwo @ [toCategorize [''p7'']]\<rparr>)"
    by code_simp
  have m: "map std_practices
             (standards (existingTwo\<lparr>standards := standards existingTwo @ [toCategorize [''p7'']]\<rparr>))
           = [[''p1'', ''p2'', ''p3'', ''p4''], [''p5'', ''p6''], [''p7'']]"
    by code_simp
  have n: "\<forall>name\<in>set sevenNames. name \<noteq> []" by (simp add: sevenNames_def)
  have first: "\<exists>result. postProcessMapping zeroRandom neverParses existingTwo
                (extractOriginalPracticeNames sevenNames) = Inr result
      \<and> map std_practices (standards result)
          = [[''p1'', ''p2'', ''p3'', ''p4''], [''p5'', ''p6''], [''p7'']]
      \<and> (\<forall>name\<in>set sevenNames. normalizeName name \<in> normalizeName ` set (allMembers result))
      \<and> distinct (map normalizeName (trackedMembers result))"
    using post_processing_completeness [of zeroRandom neverParses existingTwo sevenNames]
      u a e m n
    by auto
  have u2: "unitInterval halfRandom" by (simp add: unitInterval_def halfRandom_def)
  have a2: "\<forall>attempt. acceptableReply (repliesP7 attempt)"
    by (simp add: acceptableReply_def repliesP7_def retryAssignsP7_def expectedRetryShape_def
        categoryShape_def isJStr_def)
  have e2: "postProcessMapping halfRandom repliesP7 duplicatedMapping
              (extractOriginalPracticeNames sevenNames)
            = Inr \<lparr>standards =
                    [\<lparr>std_name = ''Group 1'', std_description = ''first'',
                      std_practices = [''p1'', ''p2'', ''p4'', ''p7'']\<rparr>,
                     \<lparr>std_name = ''Group 2'', std_description = ''second'',
                      std_practices = [''P3 '', ''p5'', ''p6'']\<rparr>]\<rparr>"
    by code_simp
  have second: "\<exists>result. postProcessMapping halfRandom repliesP7 duplicatedMapping
                  (extractOriginalPracticeNames sevenNames) = Inr result
        \<and> map std_practices (standards result)
            = [[''p1'', ''p2'', ''p4'', ''p7''], [''P3 '', ''p5'', ''p6'']]
        \<and> (\<forall>name\<in>set sevenNames.
              normalizeName name \<in> normalizeName ` set (allMembers result))
        \<and> distinct (map normalizeName (trackedMembers result))"
    using post_processing_completeness [of halfRandom repliesP7 duplicatedMapping sevenNames]
      u2 a2 e2 n
    by auto
  show ?thesis using first second by blast
qed

end
